theory Spec2Isabelle
  imports Main "HOL-Library.Char_ord" "HOL-Library.List_Lexorder"
begin

section \<open>Values, errors and outcomes\<close>

text \<open>
  The dynamic value that \<open>json.Unmarshal\<close> stores behind an \<open>interface{}\<close>:
  nil, bool, float64, string, \<open>[]interface{}\<close> or \<open>map[string]interface{}\<close>.
  The code under study only inspects the dynamic type of a value and, for strings, its
  bytes; the payload of a number is never read, so it is kept as an integer.
\<close>

datatype iface =
    JNull
  | JBool bool
  | JNumber int
  | JString string
  | JArray "iface list"
  | JObject "(string \<times> iface) list"

text \<open>The value handed to \<open>Create\<close>/\<open>Update\<close>: something \<open>json.Marshal\<close> can encode, or not
  (a channel, a function, a cyclic structure).\<close>

datatype goval = Plain iface | Unsupported

text \<open>Bytes of a file: the text of a JSON value, or bytes that are no JSON text at all.\<close>

datatype content = Doc iface | Garbage

datatype error =
    PathNotExist
  | PathNotDir
  | PathIsDir
  | PathNotEmpty
  | IOFault
  | NumSyntax
  | NumRange
  | JsonSyntax
  | JsonType
  | JsonUnsupported

datatype panic = NilDereference | NilMapWrite | TypeAssertion | IndexOutOfRange

text \<open>A Go call either returns its results or panics.\<close>

datatype 'a outcome = Returns 'a | Panics panic

section \<open>The storage substrate\<close>

text \<open>
  A file tree. The database root is a directory; each table is a sub-directory of it and
  each record a file \<open>id.json\<close> inside. Table names are single path elements, as the ones
  \<open>OpenDB\<close> discovers are.
\<close>

datatype node = File content | Dir "(string \<times> node) list"

text \<open>
  \<open>faults\<close> is the schedule of transient read failures of the substrate: every
  \<open>ioutil.ReadFile\<close> consumes its head, and fails with an I/O error when the head is
  \<open>True\<close>. An empty schedule means no failure.
\<close>

record world =
  root :: "(string \<times> node) list"
  faults :: "bool list"

fun isDir :: "node \<Rightarrow> bool" where
  "isDir (Dir es) = True"
| "isDir (File c) = False"

definition tblDir :: "world \<Rightarrow> string \<Rightarrow> (string \<times> node) list option" where
  "tblDir w tblName =
     (case map_of (root w) tblName of Some (Dir es) \<Rightarrow> Some es | _ \<Rightarrow> None)"

text \<open>\<open>ioutil.ReadDir\<close>: the entries of a directory, sorted by file name.\<close>

definition ReadDir :: "world \<Rightarrow> string \<Rightarrow> error + (string \<times> node) list" where
  "ReadDir w tblName =
     (case map_of (root w) tblName of
        None \<Rightarrow> Inl PathNotExist
      | Some (File c) \<Rightarrow> Inl PathNotDir
      | Some (Dir es) \<Rightarrow> Inr (sort_key fst es))"

definition lookupFile :: "world \<Rightarrow> string \<Rightarrow> string \<Rightarrow> error + content" where
  "lookupFile w tblName name =
     (case tblDir w tblName of
        None \<Rightarrow> Inl PathNotExist
      | Some es \<Rightarrow>
          (case map_of es name of
             None \<Rightarrow> Inl PathNotExist
           | Some (Dir sub) \<Rightarrow> Inl PathIsDir
           | Some (File c) \<Rightarrow> Inr c))"

definition ReadFile :: "world \<Rightarrow> string \<Rightarrow> string \<Rightarrow> (error + content) \<times> world" where
  "ReadFile w tblName name =
     (case faults w of
        True # fs \<Rightarrow> (Inl IOFault, w\<lparr>faults := fs\<rparr>)
      | _ \<Rightarrow> (lookupFile w tblName name, w\<lparr>faults := tl (faults w)\<rparr>))"

fun put :: "string \<Rightarrow> node \<Rightarrow> (string \<times> node) list \<Rightarrow> (string \<times> node) list" where
  "put k v [] = [(k, v)]"
| "put k v ((k', v') # es) = (if k' = k then (k, v) # es else (k', v') # put k v es)"

definition WriteFile :: "world \<Rightarrow> string \<Rightarrow> string \<Rightarrow> content \<Rightarrow> error option \<times> world" where
  "WriteFile w tblName name data =
     (case tblDir w tblName of
        None \<Rightarrow> (Some PathNotExist, w)
      | Some es \<Rightarrow>
          (case map_of es name of
             Some (Dir sub) \<Rightarrow> (Some PathIsDir, w)
           | _ \<Rightarrow> (None, w\<lparr>root := put tblName (Dir (put name (File data) es)) (root w)\<rparr>)))"

text \<open>\<open>os.Remove\<close>: removes a file or an empty directory.\<close>

definition Remove :: "world \<Rightarrow> string \<Rightarrow> string \<Rightarrow> error option \<times> world" where
  "Remove w tblName name =
     (case tblDir w tblName of
        None \<Rightarrow> (Some PathNotExist, w)
      | Some es \<Rightarrow>
          (case map_of es name of
             None \<Rightarrow> (Some PathNotExist, w)
           | Some (Dir (x # xs)) \<Rightarrow> (Some PathNotEmpty, w)
           | Some nd \<Rightarrow>
               (None, w\<lparr>root := put tblName (Dir (filter (\<lambda>e. fst e \<noteq> name) es)) (root w)\<rparr>)))"

section \<open>Library functions the code calls\<close>

text \<open>\<open>path.Ext\<close>: the suffix from the last dot of the last path element, or empty.\<close>

fun ext_scan :: "string \<Rightarrow> string \<Rightarrow> string" where
  "ext_scan [] acc = []"
| "ext_scan (c # cs) acc =
     (if c = CHR ''/'' then []
      else if c = CHR ''.'' then c # acc
      else ext_scan cs (c # acc))"

definition Ext :: "string \<Rightarrow> string" where
  "Ext p = ext_scan (rev p) []"

text \<open>
  \<open>strconv.Atoi\<close> and \<open>strconv.Itoa\<close> on a 64-bit \<open>int\<close>: an optional sign and one or
  more decimal digits; a value outside the range of \<open>int\<close> is a range error.
\<close>

definition isDigit :: "char \<Rightarrow> bool" where
  "isDigit c = (48 \<le> (of_char c :: nat) \<and> (of_char c :: nat) \<le> 57)"

fun digitsVal :: "int \<Rightarrow> string \<Rightarrow> int" where
  "digitsVal n [] = n"
| "digitsVal n (c # cs) = digitsVal (n * 10 + (int (of_char c) - 48)) cs"

definition minInt :: int where "minInt = - (2 ^ 63)"
definition maxInt :: int where "maxInt = 2 ^ 63 - 1"

definition Atoi :: "string \<Rightarrow> error + int" where
  "Atoi s =
     (case s of
        [] \<Rightarrow> Inl NumSyntax
      | c # cs \<Rightarrow>
          (let neg = (c = CHR ''-'');
               ds = (if c = CHR ''-'' \<or> c = CHR ''+'' then cs else s)
           in if ds = [] \<or> \<not> list_all isDigit ds then Inl NumSyntax
              else (let n = (if neg then - digitsVal 0 ds else digitsVal 0 ds)
                    in if n < minInt \<or> maxInt < n then Inl NumRange else Inr n)))"

fun dec :: "nat \<Rightarrow> string" where
  "dec n = (if n < 10 then [char_of (48 + n)] else dec (n div 10) @ [char_of (48 + n mod 10)])"

definition Itoa :: "int \<Rightarrow> string" where
  "Itoa i = (if i < 0 then CHR ''-'' # dec (nat (- i)) else dec (nat i))"

text \<open>Addition on \<open>int\<close> wraps around in two's complement.\<close>

definition wrap64 :: "int \<Rightarrow> int" where
  "wrap64 x = (x + 2 ^ 63) mod 2 ^ 64 - 2 ^ 63"

text \<open>
  \<open>json.Unmarshal(data, &rec)\<close> for \<open>rec\<close> of type \<open>map[string]interface{}\<close>. A JSON
  object is stored into the map that \<open>rec\<close> already holds, keeping the entries that are
  there (a nil map is allocated first); \<open>null\<close> sets \<open>rec\<close> to nil; any other JSON value
  is a type error and invalid text a syntax error, both leaving \<open>rec\<close> as it was. A nil
  map reads like an empty one, so both are the empty map here.
\<close>

type_synonym gomap = "string \<rightharpoonup> iface"

fun store :: "(string \<times> iface) list \<Rightarrow> gomap \<Rightarrow> gomap" where
  "store [] m = m"
| "store ((k, v) # kvs) m = store kvs (m(k \<mapsto> v))"

fun Unmarshal :: "content \<Rightarrow> gomap \<Rightarrow> error option \<times> gomap" where
  "Unmarshal Garbage m = (Some JsonSyntax, m)"
| "Unmarshal (Doc JNull) m = (None, Map.empty)"
| "Unmarshal (Doc (JObject kvs)) m = (None, store kvs m)"
| "Unmarshal (Doc v) m = (Some JsonType, m)"

fun Marshal :: "goval \<Rightarrow> error + content" where
  "Marshal (Plain v) = Inr (Doc v)"
| "Marshal Unsupported = Inl JsonUnsupported"

section \<open>The database handle\<close>

text \<open>
  The Go maps of \<open>DB\<close>. \<open>rwLocks\<close> holds one lock per table found when the database was
  opened; only the set of its keys matters to a sequential run, where taking a lock
  that is absent dereferences a nil pointer. \<open>fieldsToIndex\<close> is kept as a list of
  pairs: \<open>OpenDB\<close> ranges over it, and the list order stands for the order of that run.
\<close>

type_synonym bucket = "string \<rightharpoonup> string list"

record DB =
  rwLocks :: "string set"
  fieldsToIndex :: "(string \<times> string list) list"
  tagIndexes :: "string \<rightharpoonup> bucket"
  fldIndexes :: "string \<rightharpoonup> (string \<rightharpoonup> bucket)"

section \<open>Private methods\<close>

fun stringInSlice :: "string \<Rightarrow> string list \<Rightarrow> bool" where
  "stringInSlice s [] = False"
| "stringInSlice s (x # list) = (if x = s then True else stringInSlice s list)"

text \<open>\<open>fileIdsInDataDir\<close>: the error of the directory listing is dropped.\<close>

definition fileIdsInDataDir :: "world \<Rightarrow> string \<Rightarrow> string list" where
  "fileIdsInDataDir w tblName =
     (let files = (case ReadDir w tblName of Inl e \<Rightarrow> [] | Inr fs \<Rightarrow> fs)
      in map (\<lambda>file. take (length (fst file) - 5) (fst file))
           (filter (\<lambda>file. \<not> isDir (snd file) \<and> Ext (fst file) = ''.json'') files))"

definition fileName :: "string \<Rightarrow> string" where
  "fileName fileId = fileId @ ''.json''"

fun atoiAll :: "string list \<Rightarrow> error + int list" where
  "atoiAll [] = Inr []"
| "atoiAll (f # fs) =
     (case Atoi f of
        Inl e \<Rightarrow> Inl e
      | Inr fileId \<Rightarrow> (case atoiAll fs of Inl e \<Rightarrow> Inl e | Inr fileIds \<Rightarrow> Inr (fileId # fileIds)))"

definition nextAvailableFileId :: "world \<Rightarrow> string \<Rightarrow> string \<times> error option" where
  "nextAvailableFileId w tblName =
     (case atoiAll (fileIdsInDataDir w tblName) of
        Inl e \<Rightarrow> ('''', Some e)
      | Inr fileIds \<Rightarrow>
          (if length fileIds = 0 then (''1'', None)
           else (Itoa (wrap64 (last (sort fileIds) + 1)), None)))"

section \<open>The index engine\<close>

text \<open>\<open>db.fieldsToIndex[tblName]\<close>: a nil slice when the table has no configuration.\<close>

definition configFor :: "DB \<Rightarrow> string \<Rightarrow> string list" where
  "configFor db tblName = (case map_of (fieldsToIndex db) tblName of None \<Rightarrow> [] | Some fldNames \<Rightarrow> fldNames)"

text \<open>The first loop of \<open>initNonTagsIndexes\<close>: an empty index per configured field but tags.\<close>

fun initFlds :: "string list \<Rightarrow> (string \<rightharpoonup> bucket) \<Rightarrow> (string \<rightharpoonup> bucket)" where
  "initFlds [] ix = ix"
| "initFlds (fldName # rest) ix =
     initFlds rest (if fldName \<noteq> ''tags'' then ix(fldName \<mapsto> Map.empty) else ix)"

text \<open>
  The inner loop of \<open>initNonTagsIndexes\<close> over the configured fields, for one record.
  \<open>rec[fldName].(string)\<close> panics unless the map holds a string under that key; a store
  into a nil map panics too.
\<close>

fun indexFields ::
  "string list \<Rightarrow> gomap \<Rightarrow> string \<Rightarrow> (string \<rightharpoonup> bucket) \<Rightarrow> panic option \<times> (string \<rightharpoonup> bucket)" where
  "indexFields [] rec fileId ix = (None, ix)"
| "indexFields (fldName # rest) rec fileId ix =
     (if fldName = ''tags'' then indexFields rest rec fileId ix
      else
        (case rec fldName of
           Some (JString fldValue) \<Rightarrow>
             (case ix fldName of
                None \<Rightarrow> (Some NilMapWrite, ix)
              | Some b \<Rightarrow>
                  (case b fldValue of
                     Some fileIds \<Rightarrow>
                       (if \<not> stringInSlice fileId fileIds
                        then indexFields rest rec fileId (ix(fldName \<mapsto> b(fldValue \<mapsto> fileIds @ [fileId])))
                        else indexFields rest rec fileId ix)
                   | None \<Rightarrow> indexFields rest rec fileId (ix(fldName \<mapsto> b(fldValue \<mapsto> [fileId])))))
         | _ \<Rightarrow> (Some TypeAssertion, ix)))"

text \<open>
  The loop of \<open>initNonTagsIndexes\<close> over the files of the table. \<open>rec\<close> is declared once,
  before the loop, so every \<open>Unmarshal\<close> stores into the map the previous records left.
\<close>

fun nonTagsLoop ::
  "string \<Rightarrow> string list \<Rightarrow> string list \<Rightarrow> gomap \<Rightarrow> (string \<rightharpoonup> bucket) \<Rightarrow> world
     \<Rightarrow> error option outcome \<times> (string \<rightharpoonup> bucket) \<times> world" where
  "nonTagsLoop tblName fldNames [] rec ix w = (Returns None, ix, w)"
| "nonTagsLoop tblName fldNames (fileId # rest) rec ix w =
     (case ReadFile w tblName (fileName fileId) of
        (Inl e, w1) \<Rightarrow> (Returns (Some e), ix, w1)
      | (Inr data, w1) \<Rightarrow>
          (case Unmarshal data rec of
             (Some e, rec1) \<Rightarrow> (Returns (Some e), ix, w1)
           | (None, rec1) \<Rightarrow>
               (case indexFields fldNames rec1 fileId ix of
                  (Some p, ix1) \<Rightarrow> (Panics p, ix1, w1)
                | (None, ix1) \<Rightarrow> nonTagsLoop tblName fldNames rest rec1 ix1 w1)))"

text \<open>
  \<open>initNonTagsIndexes\<close>. The table's index is emptied and replaced by a fresh map, which
  the loop then fills in place: whatever the loop has stored is in the handle when the
  method returns an error or panics.
\<close>

definition initNonTagsIndexes :: "DB \<Rightarrow> world \<Rightarrow> string \<Rightarrow> error option outcome \<times> DB \<times> world" where
  "initNonTagsIndexes db w tblName =
     (case nonTagsLoop tblName (configFor db tblName) (fileIdsInDataDir w tblName) Map.empty
             (initFlds (configFor db tblName) Map.empty) w of
        (r, ix, w') \<Rightarrow> (r, db\<lparr>fldIndexes := (fldIndexes db)(tblName \<mapsto> ix)\<rparr>, w'))"

text \<open>The loop of \<open>initTagsIndex\<close> over the tags of one record.\<close>

fun addTags :: "iface list \<Rightarrow> string \<Rightarrow> bucket \<Rightarrow> panic option \<times> bucket" where
  "addTags [] fileId tagIndex = (None, tagIndex)"
| "addTags (t # ts) fileId tagIndex =
     (case t of
        JString tag \<Rightarrow>
          (case tagIndex tag of
             Some fileIds \<Rightarrow>
               (if \<not> stringInSlice fileId fileIds
                then addTags ts fileId (tagIndex(tag \<mapsto> fileIds @ [fileId]))
                else addTags ts fileId tagIndex)
           | None \<Rightarrow> addTags ts fileId (tagIndex(tag \<mapsto> [fileId])))
      | _ \<Rightarrow> (Some TypeAssertion, tagIndex))"

fun tagsLoop ::
  "string \<Rightarrow> string list \<Rightarrow> gomap \<Rightarrow> bucket \<Rightarrow> world \<Rightarrow> error option outcome \<times> bucket \<times> world" where
  "tagsLoop tblName [] rec tagIndex w = (Returns None, tagIndex, w)"
| "tagsLoop tblName (fileId # rest) rec tagIndex w =
     (case ReadFile w tblName (fileName fileId) of
        (Inl e, w1) \<Rightarrow> (Returns (Some e), tagIndex, w1)
      | (Inr data, w1) \<Rightarrow>
          (case Unmarshal data rec of
             (Some e, rec1) \<Rightarrow> (Returns (Some e), tagIndex, w1)
           | (None, rec1) \<Rightarrow>
               (case rec1 ''tags'' of
                  Some (JArray tags) \<Rightarrow>
                    (case addTags tags fileId tagIndex of
                       (Some p, tagIndex1) \<Rightarrow> (Panics p, tagIndex1, w1)
                     | (None, tagIndex1) \<Rightarrow> tagsLoop tblName rest rec1 tagIndex1 w1)
                | _ \<Rightarrow> (Panics TypeAssertion, tagIndex, w1))))"

text \<open>
  \<open>initTagsIndex\<close>. The entries of the table's present tag index are deleted in place
  first (nothing to delete when the table has none); the new index is a local map that
  reaches the handle only when the loop has finished.
\<close>

definition clearTags :: "DB \<Rightarrow> string \<Rightarrow> DB" where
  "clearTags db tblName =
     (case tagIndexes db tblName of
        None \<Rightarrow> db
      | Some old \<Rightarrow> db\<lparr>tagIndexes := (tagIndexes db)(tblName \<mapsto> Map.empty)\<rparr>)"

definition initTagsIndex :: "DB \<Rightarrow> world \<Rightarrow> string \<Rightarrow> error option outcome \<times> DB \<times> world" where
  "initTagsIndex db w tblName =
     (let db0 = clearTags db tblName
      in case tagsLoop tblName (fileIdsInDataDir w tblName) Map.empty Map.empty w of
           (Returns None, tagIndex, w') \<Rightarrow>
             (Returns None, db0\<lparr>tagIndexes := (tagIndexes db0)(tblName \<mapsto> tagIndex)\<rparr>, w')
         | (r, tagIndex, w') \<Rightarrow> (r, db0, w'))"

text \<open>
  \<open>initTblIndexes\<close>. The result of \<open>initTagsIndex\<close> is not assigned: the test that follows
  the call reads \<open>err\<close> of \<open>initNonTagsIndexes\<close>, which is nil there.
\<close>

definition initTblIndexes :: "DB \<Rightarrow> world \<Rightarrow> string \<Rightarrow> error option outcome \<times> DB \<times> world" where
  "initTblIndexes db w tblName =
     (case map_of (fieldsToIndex db) tblName of
        None \<Rightarrow> (Returns None, db, w)
      | Some fldNames \<Rightarrow>
          (case initNonTagsIndexes db w tblName of
             (Panics p, db1, w1) \<Rightarrow> (Panics p, db1, w1)
           | (Returns (Some e), db1, w1) \<Rightarrow> (Returns (Some e), db1, w1)
           | (Returns None, db1, w1) \<Rightarrow>
               (if stringInSlice ''tags'' fldNames
                then (case initTagsIndex db1 w1 tblName of
                        (Panics p, db2, w2) \<Rightarrow> (Panics p, db2, w2)
                      | (Returns discarded, db2, w2) \<Rightarrow> (Returns None, db2, w2))
                else (Returns None, db1, w1))))"

section \<open>Public methods: enumeration\<close>

definition FindAllIds :: "DB \<Rightarrow> world \<Rightarrow> string \<Rightarrow> (string list \<times> error option) outcome" where
  "FindAllIds db w tblName =
     (if tblName \<notin> rwLocks db then Panics NilDereference
      else Returns (fileIdsInDataDir w tblName, None))"

section \<open>Public methods: queries\<close>

text \<open>The scanning loop of \<open>FindAllIdsForField\<close>; \<open>rec\<close> is shared by the iterations here too.\<close>

fun scanLoop ::
  "string \<Rightarrow> string \<Rightarrow> string \<Rightarrow> string list \<Rightarrow> gomap \<Rightarrow> string list \<Rightarrow> world
     \<Rightarrow> (string list \<times> error option) outcome \<times> world" where
  "scanLoop tblName searchField searchValue [] rec ids w = (Returns (ids, None), w)"
| "scanLoop tblName searchField searchValue (fileId # rest) rec ids w =
     (case ReadFile w tblName (fileName fileId) of
        (Inl e, w1) \<Rightarrow> (Returns ([], Some e), w1)
      | (Inr data, w1) \<Rightarrow>
          (case Unmarshal data rec of
             (Some e, rec1) \<Rightarrow> (Returns ([], Some e), w1)
           | (None, rec1) \<Rightarrow>
               (case rec1 searchField of
                  Some (JString s) \<Rightarrow>
                    scanLoop tblName searchField searchValue rest rec1
                      (if s = searchValue then ids @ [fileId] else ids) w1
                | _ \<Rightarrow> (Panics TypeAssertion, w1))))"

definition scanForField ::
  "world \<Rightarrow> string \<Rightarrow> string \<Rightarrow> string \<Rightarrow> (string list \<times> error option) outcome \<times> world" where
  "scanForField w tblName searchField searchValue =
     scanLoop tblName searchField searchValue (fileIdsInDataDir w tblName) Map.empty [] w"

text \<open>\<open>db.fldIndexes[tblName][searchField][searchValue]\<close>: absent at any level is "not ok".\<close>

definition indexLookup :: "DB \<Rightarrow> string \<Rightarrow> string \<Rightarrow> string \<Rightarrow> string list option" where
  "indexLookup db tblName searchField searchValue =
     (case fldIndexes db tblName of
        None \<Rightarrow> None
      | Some ix \<Rightarrow> (case ix searchField of None \<Rightarrow> None | Some b \<Rightarrow> b searchValue))"

definition FindAllIdsForField ::
  "DB \<Rightarrow> world \<Rightarrow> string \<Rightarrow> string \<Rightarrow> string \<Rightarrow> (string list \<times> error option) outcome \<times> world" where
  "FindAllIdsForField db w tblName searchField searchValue =
     (if tblName \<notin> rwLocks db then (Panics NilDereference, w)
      else
        (case indexLookup db tblName searchField searchValue of
           Some ids \<Rightarrow> (Returns (ids, None), w)
         | None \<Rightarrow> scanForField w tblName searchField searchValue))"

text \<open>\<open>FindFirstIdForField\<close>: \<open>results[0]\<close> is out of range when there is no result.\<close>

definition FindFirstIdForField ::
  "DB \<Rightarrow> world \<Rightarrow> string \<Rightarrow> string \<Rightarrow> string \<Rightarrow> (string \<times> error option) outcome \<times> world" where
  "FindFirstIdForField db w tblName searchField searchValue =
     (case FindAllIdsForField db w tblName searchField searchValue of
        (Panics p, w') \<Rightarrow> (Panics p, w')
      | (Returns (results, Some e), w') \<Rightarrow> (Returns ([], Some e), w')
      | (Returns (results, None), w') \<Rightarrow>
          (case results of
             [] \<Rightarrow> (Panics IndexOutOfRange, w')
           | r # rs \<Rightarrow> (Returns (r, None), w')))"

text \<open>
  \<open>FindAllIdsForTags\<close>. \<open>possibleMatchingFileIdsMap\<close> is kept as a list of pairs with
  distinct keys, in the order the keys were first stored; Go ranges over a map in an
  unspecified order, so only the set of the ids returned is meaningful.
\<close>

fun countId :: "string \<Rightarrow> (string \<times> nat) list \<Rightarrow> (string \<times> nat) list" where
  "countId fileId [] = [(fileId, 1)]"
| "countId fileId ((k, numOfOccurences) # m) =
     (if k = fileId then (k, numOfOccurences + 1) # m else (k, numOfOccurences) # countId fileId m)"

fun countIds :: "string list \<Rightarrow> (string \<times> nat) list \<Rightarrow> (string \<times> nat) list" where
  "countIds [] m = m"
| "countIds (fileId # fileIds) m = countIds fileIds (countId fileId m)"

fun countTags :: "bucket \<Rightarrow> string list \<Rightarrow> (string \<times> nat) list \<Rightarrow> (string \<times> nat) list" where
  "countTags tagIndex [] m = m"
| "countTags tagIndex (tag # tags) m =
     (case tagIndex tag of
        Some fileIds \<Rightarrow> countTags tagIndex tags (countIds fileIds m)
      | None \<Rightarrow> countTags tagIndex tags m)"

definition tagIndexOf :: "DB \<Rightarrow> string \<Rightarrow> bucket" where
  "tagIndexOf db tblName = (case tagIndexes db tblName of None \<Rightarrow> Map.empty | Some tagIndex \<Rightarrow> tagIndex)"

definition FindAllIdsForTags ::
  "DB \<Rightarrow> string \<Rightarrow> string list \<Rightarrow> (string list \<times> error option) outcome" where
  "FindAllIdsForTags db tblName searchTags =
     (if tblName \<notin> rwLocks db then Panics NilDereference
      else if length searchTags \<noteq> 0
      then Returns (map fst (filter (\<lambda>p. snd p = length searchTags)
                      (countTags (tagIndexOf db tblName) searchTags [])), None)
      else Returns ([], None))"

section \<open>Public methods: mutations\<close>

definition Create ::
  "DB \<Rightarrow> world \<Rightarrow> string \<Rightarrow> goval \<Rightarrow> (string \<times> error option) outcome \<times> DB \<times> world" where
  "Create db w tblName rec =
     (if tblName \<notin> rwLocks db then (Panics NilDereference, db, w)
      else
        (case nextAvailableFileId w tblName of
           (fileId, Some e) \<Rightarrow> (Returns ([], Some e), db, w)
         | (fileId, None) \<Rightarrow>
             (case Marshal rec of
                Inl e \<Rightarrow> (Returns ([], Some e), db, w)
              | Inr marshalledRec \<Rightarrow>
                  (case WriteFile w tblName (fileName fileId) marshalledRec of
                     (Some e, w1) \<Rightarrow> (Returns ([], Some e), db, w1)
                   | (None, w1) \<Rightarrow>
                       (case initTblIndexes db w1 tblName of
                          (Panics p, db2, w2) \<Rightarrow> (Panics p, db2, w2)
                        | (Returns (Some e), db2, w2) \<Rightarrow> (Returns (fileId, Some e), db2, w2)
                        | (Returns None, db2, w2) \<Rightarrow> (Returns (fileId, None), db2, w2))))))"

text \<open>\<open>Update\<close> takes the lock first and checks the id under it.\<close>

definition Update ::
  "DB \<Rightarrow> world \<Rightarrow> string \<Rightarrow> goval \<Rightarrow> string \<Rightarrow> error option outcome \<times> DB \<times> world" where
  "Update db w tblName rec fileId =
     (if tblName \<notin> rwLocks db then (Panics NilDereference, db, w)
      else
        (case Atoi fileId of
           Inl e \<Rightarrow> (Returns (Some e), db, w)
         | Inr n \<Rightarrow>
             (case Marshal rec of
                Inl e \<Rightarrow> (Returns (Some e), db, w)
              | Inr marshalledRec \<Rightarrow>
                  (case WriteFile w tblName (fileName fileId) marshalledRec of
                     (Some e, w1) \<Rightarrow> (Returns (Some e), db, w1)
                   | (None, w1) \<Rightarrow> initTblIndexes db w1 tblName))))"

text \<open>\<open>Delete\<close> checks the id first and takes the lock after.\<close>

definition Delete :: "DB \<Rightarrow> world \<Rightarrow> string \<Rightarrow> string \<Rightarrow> error option outcome \<times> DB \<times> world" where
  "Delete db w tblName fileId =
     (case Atoi fileId of
        Inl e \<Rightarrow> (Returns (Some e), db, w)
      | Inr n \<Rightarrow>
          (if tblName \<notin> rwLocks db then (Panics NilDereference, db, w)
           else
             (case Remove w tblName (fileName fileId) of
                (Some e, w1) \<Rightarrow> (Returns (Some e), db, w1)
              | (None, w1) \<Rightarrow> initTblIndexes db w1 tblName)))"

section \<open>Opening a database\<close>

text \<open>
  \<open>performChecks\<close>: every configured table must exist under the root (the root itself
  always exists in a \<open>world\<close>). \<open>os.Stat\<close> succeeds on a plain file as well.
\<close>

fun performChecks :: "world \<Rightarrow> (string \<times> string list) list \<Rightarrow> error option" where
  "performChecks w [] = None"
| "performChecks w ((tbl, fldNames) # cfg) =
     (case map_of (root w) tbl of None \<Rightarrow> Some PathNotExist | Some nd \<Rightarrow> performChecks w cfg)"

fun openLoop :: "(string \<times> string list) list \<Rightarrow> DB \<Rightarrow> world \<Rightarrow> error option outcome \<times> DB \<times> world" where
  "openLoop [] db w = (Returns None, db, w)"
| "openLoop ((tblName, fldNames) # cfg) db w =
     (case initTblIndexes db w tblName of
        (Returns None, db1, w1) \<Rightarrow> openLoop cfg db1 w1
      | (r, db1, w1) \<Rightarrow> (r, db1, w1))"

definition OpenDB ::
  "world \<Rightarrow> (string \<times> string list) list \<Rightarrow> (DB option \<times> error option) outcome \<times> world" where
  "OpenDB w fieldsToIndex0 =
     (case performChecks w fieldsToIndex0 of
        Some e \<Rightarrow> (Returns (None, Some e), w)
      | None \<Rightarrow>
          (case openLoop fieldsToIndex0
                  \<lparr>rwLocks = set (map fst (filter (\<lambda>file. isDir (snd file) \<and> fst file \<noteq> ''.'' \<and> fst file \<noteq> ''..'')
                                              (sort_key fst (root w)))),
                   fieldsToIndex = fieldsToIndex0,
                   tagIndexes = Map.empty,
                   fldIndexes = Map.empty\<rparr> w of
             (Panics p, db, w') \<Rightarrow> (Panics p, w')
           | (Returns (Some e), db, w') \<Rightarrow> (Returns (None, Some e), w')
           | (Returns None, db, w') \<Rightarrow> (Returns (Some db, None), w')))"

section \<open>The earlier variant of the package\<close>

text \<open>
  The repository also holds an earlier copy of the package: a handle with locks and tag
  indexes only, no field index and no \<open>FindAllIdsForField\<close>. Two of its methods differ
  from those above in what the properties below are about; they are modelled on the
  same handle, with the suffix \<open>_old\<close>.

  \<open>FindFirstIdForField\<close> scans by itself and compares by the dynamic type of the search
  value. A decoded JSON value is never an \<open>int\<close>, \<open>int32\<close> or \<open>int64\<close>, so those type
  assertions panic; a search value of any other type matches nothing. When the loop
  ends without a match the method returns the empty id and a nil error.
\<close>

datatype goscalar = GoInt int | GoInt32 int | GoInt64 int | GoString string | GoOther

fun firstLoop_old ::
  "string \<Rightarrow> string \<Rightarrow> goscalar \<Rightarrow> string list \<Rightarrow> gomap \<Rightarrow> world
     \<Rightarrow> (string \<times> error option) outcome \<times> world" where
  "firstLoop_old tblName searchField searchValue [] rec w = (Returns ([], None), w)"
| "firstLoop_old tblName searchField searchValue (fileId # rest) rec w =
     (case ReadFile w tblName (fileName fileId) of
        (Inl e, w1) \<Rightarrow> (Returns ([], Some e), w1)
      | (Inr data, w1) \<Rightarrow>
          (case Unmarshal data rec of
             (Some e, rec1) \<Rightarrow> (Returns ([], Some e), w1)
           | (None, rec1) \<Rightarrow>
               (case searchValue of
                  GoInt n \<Rightarrow> (Panics TypeAssertion, w1)
                | GoInt32 n \<Rightarrow> (Panics TypeAssertion, w1)
                | GoInt64 n \<Rightarrow> (Panics TypeAssertion, w1)
                | GoString s \<Rightarrow>
                    (case rec1 searchField of
                       Some (JString v) \<Rightarrow>
                         (if v = s then (Returns (fileId, None), w1)
                          else firstLoop_old tblName searchField searchValue rest rec1 w1)
                     | _ \<Rightarrow> (Panics TypeAssertion, w1))
                | GoOther \<Rightarrow> firstLoop_old tblName searchField searchValue rest rec1 w1)))"

definition FindFirstIdForField_old ::
  "DB \<Rightarrow> world \<Rightarrow> string \<Rightarrow> string \<Rightarrow> goscalar \<Rightarrow> (string \<times> error option) outcome \<times> world" where
  "FindFirstIdForField_old db w tblName searchField searchValue =
     (if tblName \<notin> rwLocks db then (Panics NilDereference, w)
      else firstLoop_old tblName searchField searchValue (fileIdsInDataDir w tblName) Map.empty w)"

text \<open>
  \<open>initTagsIndex\<close> of the earlier copy ranges over the keys of \<open>db.tagIndexes\<close>, the table
  names, and deletes each of them as a key of the table's own tag index.
\<close>

definition clearTags_old :: "DB \<Rightarrow> string \<Rightarrow> DB" where
  "clearTags_old db tblName =
     (case tagIndexes db tblName of
        None \<Rightarrow> db
      | Some old \<Rightarrow>
          db\<lparr>tagIndexes := (tagIndexes db)(tblName \<mapsto> (\<lambda>k. if tagIndexes db k \<noteq> None then None else old k))\<rparr>)"

definition initTagsIndex_old :: "DB \<Rightarrow> world \<Rightarrow> string \<Rightarrow> error option outcome \<times> DB \<times> world" where
  "initTagsIndex_old db w tblName =
     (let db0 = clearTags_old db tblName
      in case tagsLoop tblName (fileIdsInDataDir w tblName) Map.empty Map.empty w of
           (Returns None, tagIndex, w') \<Rightarrow>
             (Returns None, db0\<lparr>tagIndexes := (tagIndexes db0)(tblName \<mapsto> tagIndex)\<rparr>, w')
         | (r, tagIndex, w') \<Rightarrow> (r, db0, w'))"


section \<open>Notions used in the properties\<close>

text \<open>The ids a field index or a tag index lists under a value.\<close>

definition bucketIds :: "bucket \<Rightarrow> string \<Rightarrow> string set" where
  "bucketIds b v = (case b v of None \<Rightarrow> {} | Some fileIds \<Rightarrow> set fileIds)"

text \<open>
  How often an id is met when the buckets of the requested tags are walked through, one
  bucket per element of the request; and the number a map of counters holds for an id.
\<close>

definition hits :: "bucket \<Rightarrow> string list \<Rightarrow> string \<Rightarrow> nat" where
  "hits tagIndex searchTags fileId =
     sum_list (map (\<lambda>tag. case tagIndex tag of None \<Rightarrow> 0 | Some fileIds \<Rightarrow> count_list fileIds fileId) searchTags)"

definition cnt :: "(string \<times> nat) list \<Rightarrow> string \<Rightarrow> nat" where
  "cnt m fileId = (case map_of m fileId of None \<Rightarrow> 0 | Some n \<Rightarrow> n)"


text \<open>
  The \<open>tags\<close> attribute that the file of a record holds itself: its content is a JSON
  object whose last member named \<open>tags\<close> is an array.
\<close>

definition ownTags :: "world \<Rightarrow> string \<Rightarrow> string \<Rightarrow> iface list option" where
  "ownTags w tblName fileId =
     (case lookupFile w tblName (fileName fileId) of
        Inr (Doc (JObject kvs)) \<Rightarrow>
          (case map_of (rev kvs) ''tags'' of Some (JArray tags) \<Rightarrow> Some tags | _ \<Rightarrow> None)
      | _ \<Rightarrow> None)"


text \<open>
  The string that the file of a record holds itself under a field: its content is a JSON
  object whose last member of that name is a string.
\<close>

definition ownField :: "world \<Rightarrow> string \<Rightarrow> string \<Rightarrow> string \<Rightarrow> string option" where
  "ownField w tblName fileId fld =
     (case lookupFile w tblName (fileName fileId) of
        Inr (Doc (JObject kvs)) \<Rightarrow>
          (case map_of (rev kvs) fld of Some (JString s) \<Rightarrow> Some s | _ \<Rightarrow> None)
      | _ \<Rightarrow> None)"

text \<open>The ids a table's field index lists under a field and a value.\<close>

definition listed :: "(string \<rightharpoonup> bucket) \<Rightarrow> string \<Rightarrow> string \<Rightarrow> string set" where
  "listed ix f v = (case ix f of None \<Rightarrow> {} | Some b \<Rightarrow> bucketIds b v)"


section \<open>Example databases\<close>

text \<open>
  A root with one empty table \<open>posts\<close>, and the handles \<open>OpenDB\<close> returns for it: without
  any index configuration, and with the field \<open>author\<close> indexed.
\<close>

definition ex_world :: world where
  "ex_world = \<lparr>root = [(''posts'', Dir [])], faults = []\<rparr>"

definition ex_db :: DB where
  "ex_db = \<lparr>rwLocks = {''posts''}, fieldsToIndex = [], tagIndexes = Map.empty, fldIndexes = Map.empty\<rparr>"

definition author_cfg :: "(string \<times> string list) list" where
  "author_cfg = [(''posts'', [''author''])]"

definition author_db :: DB where
  "author_db = \<lparr>rwLocks = {''posts''}, fieldsToIndex = author_cfg, tagIndexes = Map.empty,
                 fldIndexes = [''posts'' \<mapsto> [''author'' \<mapsto> Map.empty]]\<rparr>"

definition alice :: goval where
  "alice = Plain (JObject [(''author'', JString ''alice'')])"

text \<open>The state after \<open>Create("posts", alice)\<close> on the indexed handle.\<close>

definition author_db1 :: DB where
  "author_db1 = fst (snd (Create author_db ex_world ''posts'' alice))"

definition author_world1 :: world where
  "author_world1 = snd (snd (Create author_db ex_world ''posts'' alice))"

definition titled :: goval where
  "titled = Plain (JObject [(''title'', JString ''x'')])"

text \<open>The state after a second \<open>Create\<close>, of a record that has no \<open>author\<close>.\<close>

definition author_db2 :: DB where
  "author_db2 = fst (snd (Create author_db1 author_world1 ''posts'' titled))"

definition author_world2 :: world where
  "author_world2 = snd (snd (Create author_db1 author_world1 ''posts'' titled))"

text \<open>Two tables, \<open>posts\<close> still empty and \<open>users\<close> with one record, both indexed.\<close>

definition two_world :: world where
  "two_world =
     \<lparr>root = [(''posts'', Dir []),
              (''users'', Dir [(''7.json'', File (Doc (JObject [(''name'', JString ''root''),
                                                               (''tags'', JArray [JString ''admin''])])))])],
      faults = []\<rparr>"

definition two_db :: DB where
  "two_db =
     \<lparr>rwLocks = {''posts'', ''users''},
      fieldsToIndex = [(''posts'', [''author'']), (''users'', [''name'', ''tags''])],
      tagIndexes = [''users'' \<mapsto> [''admin'' \<mapsto> [''7'']]],
      fldIndexes = [''posts'' \<mapsto> [''author'' \<mapsto> Map.empty],
                    ''users'' \<mapsto> [''name'' \<mapsto> [''root'' \<mapsto> [''7'']]]]\<rparr>"

text \<open>
  A table with the tag index only, holding one record; and the same files at a moment
  when the third read to come fails.
\<close>

definition tags_cfg :: "(string \<times> string list) list" where
  "tags_cfg = [(''posts'', [''tags''])]"

definition tags_world :: world where
  "tags_world =
     \<lparr>root = [(''posts'', Dir [(''1.json'', File (Doc (JObject [(''tags'', JArray [JString ''go''])])))])],
      faults = []\<rparr>"

definition tags_db :: DB where
  "tags_db = \<lparr>rwLocks = {''posts''}, fieldsToIndex = tags_cfg,
               tagIndexes = [''posts'' \<mapsto> [''go'' \<mapsto> [''1'']]],
               fldIndexes = [''posts'' \<mapsto> Map.empty]\<rparr>"

definition faulty_world :: world where
  "faulty_world = tags_world\<lparr>faults := [False, False, True]\<rparr>"

definition tagged_db :: goval where
  "tagged_db = Plain (JObject [(''tags'', JArray [JString ''db''])])"

text \<open>The world in which \<open>Create\<close> on \<open>faulty_world\<close> starts the rebuild: the new file is written.\<close>

definition written_world :: world where
  "written_world = snd (WriteFile faulty_world ''posts'' ''2.json'' (Doc (JObject [(''tags'', JArray [JString ''db''])])))"

text \<open>A table with a file whose stem is no number, and tables holding the largest id.\<close>

definition odd_world :: world where
  "odd_world = \<lparr>root = [(''posts'', Dir [(''x.json'', File Garbage)])], faults = []\<rparr>"

definition maxed_world :: world where
  "maxed_world = \<lparr>root = [(''posts'', Dir [(''9223372036854775807.json'', File (Doc (JObject [(''author'', JString ''alice'')])))])], faults = []\<rparr>"

definition maxed_world1 :: world where
  "maxed_world1 = \<lparr>root = [(''posts'', Dir [(''9223372036854775807.json'', File (Doc (JObject [(''author'', JString ''alice'')]))),
     (''-9223372036854775808.json'', File (Doc (JObject [(''author'', JString ''alice'')])))])], faults = []\<rparr>"

text \<open>The indexed table after a second record with an author, and after the first is deleted.\<close>

definition bob :: goval where
  "bob = Plain (JObject [(''author'', JString ''bob'')])"

definition pair_db :: DB where
  "pair_db = fst (snd (Create author_db1 author_world1 ''posts'' bob))"

definition pair_world :: world where
  "pair_world = snd (snd (Create author_db1 author_world1 ''posts'' bob))"

definition single_db :: DB where
  "single_db = fst (snd (Delete pair_db pair_world ''posts'' ''1''))"

definition single_world :: world where
  "single_world = snd (snd (Delete pair_db pair_world ''posts'' ''1''))"

text \<open>
  A table with the tag index only, opened empty, and the three records of the tag
  scenario created one after the other.
\<close>

definition tagged_db0 :: DB where
  "tagged_db0 = \<lparr>rwLocks = {''posts''}, fieldsToIndex = tags_cfg,
                  tagIndexes = [''posts'' \<mapsto> Map.empty], fldIndexes = [''posts'' \<mapsto> Map.empty]\<rparr>"

definition rec_ab :: goval where
  "rec_ab = Plain (JObject [(''tags'', JArray [JString ''a'', JString ''b''])])"
definition rec_a :: goval where
  "rec_a = Plain (JObject [(''tags'', JArray [JString ''a''])])"
definition rec_bc :: goval where
  "rec_bc = Plain (JObject [(''tags'', JArray [JString ''b'', JString ''c''])])"

definition tagged_db1 :: DB where
  "tagged_db1 = fst (snd (Create tagged_db0 ex_world ''posts'' rec_ab))"
definition tagged_world1 :: world where
  "tagged_world1 = snd (snd (Create tagged_db0 ex_world ''posts'' rec_ab))"
definition tagged_db2 :: DB where
  "tagged_db2 = fst (snd (Create tagged_db1 tagged_world1 ''posts'' rec_a))"
definition tagged_world2 :: world where
  "tagged_world2 = snd (snd (Create tagged_db1 tagged_world1 ''posts'' rec_a))"
definition tagged_db3 :: DB where
  "tagged_db3 = fst (snd (Create tagged_db2 tagged_world2 ''posts'' rec_bc))"
definition tagged_world3 :: world where
  "tagged_world3 = snd (snd (Create tagged_db2 tagged_world2 ''posts'' rec_bc))"


text \<open>
  States in which a rebuild has failed. On the indexed table holding the record of
  \<open>alice\<close>: after \<open>Create("posts", "hello")\<close>, whose file is no JSON object, and after a
  second \<open>Create("posts", alice)\<close> during which the second read fails. And the table
  itself at a moment when the next read fails.
\<close>

definition hello :: goval where
  "hello = Plain (JString ''hello'')"

definition stale_db :: DB where
  "stale_db = fst (snd (Create author_db1 author_world1 ''posts'' hello))"

definition stale_world :: world where
  "stale_world = snd (snd (Create author_db1 author_world1 ''posts'' hello))"

definition lagging_db :: DB where
  "lagging_db = fst (snd (Create author_db1 (author_world1\<lparr>faults := [False, True]\<rparr>) ''posts'' alice))"

definition lagging_world :: world where
  "lagging_world = snd (snd (Create author_db1 (author_world1\<lparr>faults := [False, True]\<rparr>) ''posts'' alice))"

definition failing_world1 :: world where
  "failing_world1 = author_world1\<lparr>faults := [True]\<rparr>"

text \<open>
  A tagged record created in the table that has no index configuration; a record
  without tags created in the table with the tag index; and the record of that table
  given other tags by an \<open>Update\<close> during which the first read fails.
\<close>

definition rec_go :: goval where
  "rec_go = Plain (JObject [(''tags'', JArray [JString ''go''])])"

definition plain_db1 :: DB where
  "plain_db1 = fst (snd (Create ex_db ex_world ''posts'' rec_go))"

definition plain_world1 :: world where
  "plain_world1 = snd (snd (Create ex_db ex_world ''posts'' rec_go))"

definition tags_db2 :: DB where
  "tags_db2 = fst (snd (Create tags_db tags_world ''posts'' titled))"

definition tags_world2 :: world where
  "tags_world2 = snd (snd (Create tags_db tags_world ''posts'' titled))"

definition retagged_db :: DB where
  "retagged_db = fst (snd (Update tags_db (tags_world\<lparr>faults := [True]\<rparr>) ''posts'' tagged_db ''1''))"

definition retagged_world :: world where
  "retagged_world = snd (snd (Update tags_db (tags_world\<lparr>faults := [True]\<rparr>) ''posts'' tagged_db ''1''))"

text \<open>A table whose first record has no \<open>author\<close>.\<close>

definition mixed_world :: world where
  "mixed_world =
     \<lparr>root = [(''posts'', Dir [(''1.json'', File (Doc (JObject [(''title'', JString ''x'')]))),
                                (''2.json'', File (Doc (JObject [(''author'', JString ''bob'')])))])],
      faults = []\<rparr>"


section \<open>Properties\<close>

lemma OpenDB_ex_db: "OpenDB ex_world [] = (Returns (Some ex_db, None), ex_world)"
  by (simp add: OpenDB_def ex_world_def ex_db_def)

lemma OpenDB_author_db: "OpenDB ex_world author_cfg = (Returns (Some author_db, None), ex_world)"
  by (simp add: OpenDB_def ex_world_def author_db_def author_cfg_def initTblIndexes_def
      initNonTagsIndexes_def configFor_def fileIdsInDataDir_def ReadDir_def)

lemma Create_alice: "fst (Create author_db ex_world ''posts'' alice) = Returns (''1'', None)"
  by code_simp

subsection \<open>FindAllIds\<close>

text \<open>
  Claim C10, as stated, at a table name that has no lock: the database was opened on a
  root whose only table is \<open>posts\<close>; \<open>FindAllIds\<close> on \<open>ghost\<close> does not return a nil error
  and an empty list, it panics on the nil lock.
\<close>

theorem FindAllIds_unknown_table_panics:
  "FindAllIds ex_db ex_world ''ghost'' = Panics NilDereference"
  by (simp add: FindAllIds_def ex_db_def)

text \<open>
  Claim C10, amended. \<open>FindAllIds\<close> never returns a non-nil error. For a table name that
  has a lock it returns the ids of the directory listing with a nil error, and when the
  listing of the table's directory fails (the directory is missing or is no directory)
  the failure is dropped and the result is the empty list. For a table name without a
  lock it panics.
\<close>

theorem FindAllIds_never_errors:
  "(tblName \<in> rwLocks db \<longrightarrow>
      FindAllIds db w tblName = Returns (fileIdsInDataDir w tblName, None) \<and>
      (ReadDir w tblName = Inl e \<longrightarrow> FindAllIds db w tblName = Returns ([], None))) \<and>
   (tblName \<notin> rwLocks db \<longrightarrow> FindAllIds db w tblName = Panics NilDereference) \<and>
   FindAllIds db w tblName \<noteq> Returns (ids, Some e')"
  by (simp add: FindAllIds_def fileIdsInDataDir_def)

theorem FindAllIds_never_errors_witness:
  "''posts'' \<in> rwLocks ex_db \<and> ReadDir \<lparr>root = [], faults = []\<rparr> ''posts'' = Inl PathNotExist \<and>
   FindAllIds ex_db \<lparr>root = [], faults = []\<rparr> ''posts'' = Returns ([], None)"
  using FindAllIds_never_errors [of "''posts''" ex_db "\<lparr>root = [], faults = []\<rparr>" PathNotExist "[]" PathNotExist]
  by (auto simp: ex_db_def ReadDir_def)

subsection \<open>Update and Delete with an id that is no integer\<close>

lemma Update_invalid_id:
  "tblName \<in> rwLocks db \<Longrightarrow> Atoi fileId = Inl e \<Longrightarrow>
   Update db w tblName r fileId = (Returns (Some e), db, w)"
  by (simp add: Update_def)

lemma Delete_invalid_id:
  "Atoi fileId = Inl e \<Longrightarrow> Delete db w tblName fileId = (Returns (Some e), db, w)"
  by (simp add: Delete_def)

lemma Atoi_abc: "Atoi ''abc'' = Inl NumSyntax"
  by (simp add: Atoi_def isDigit_def)

text \<open>
  Claim C7 at the failing input. \<open>Update\<close> takes the table's lock before it looks at the
  id: on a table name without a lock, the id \<open>abc\<close> makes \<open>Update\<close> panic on the nil lock
  instead of returning the error of \<open>strconv.Atoi\<close>. \<open>Delete\<close>, which checks the id before
  it takes the lock, returns that error for the same table and id.
\<close>

theorem Update_takes_lock_before_id_check:
  "Atoi ''abc'' = Inl NumSyntax \<and>
   Update ex_db ex_world ''ghost'' (Plain JNull) ''abc'' = (Panics NilDereference, ex_db, ex_world) \<and>
   Delete ex_db ex_world ''ghost'' ''abc'' = (Returns (Some NumSyntax), ex_db, ex_world)"
  by (simp add: Update_def Delete_def Atoi_abc ex_db_def)

subsection \<open>FindFirstIdForField\<close>

lemma scanLoop_panic:
  "scanLoop t f v ids rec acc w = (Panics p, w') \<Longrightarrow> p = TypeAssertion"
proof (induction ids arbitrary: rec acc w)
  case Nil
  then show ?case by simp
next
  case (Cons i ids)
  then show ?case
    by (auto split: prod.splits sum.splits option.splits iface.splits)
qed

lemma FindAllIdsForField_panic:
  "FindAllIdsForField db w t f v = (Panics p, w') \<Longrightarrow> p \<noteq> IndexOutOfRange"
  by (auto simp: FindAllIdsForField_def scanForField_def split: if_splits option.splits
      dest: scanLoop_panic)

text \<open>
  What \<open>FindFirstIdForField\<close> of \<open>db.go\<close> makes of the result of \<open>FindAllIdsForField\<close>. On
  no id and a nil error it does not return: \<open>results[0]\<close> panics with an index out of
  range, an outcome that no other path of the method produces. On a result that is not
  empty it returns its first id. It never returns a nil error together with an id that
  is not that first id.
\<close>

lemma FindFirstIdForField_no_match:
  "(FindAllIdsForField db w t f v = (Returns ([], None), w') \<longrightarrow>
      FindFirstIdForField db w t f v = (Panics IndexOutOfRange, w')) \<and>
   (FindAllIdsForField db w t f v = (Returns (r # rs, None), w') \<longrightarrow>
      FindFirstIdForField db w t f v = (Returns (r, None), w')) \<and>
   (FindFirstIdForField db w t f v = (Returns (x, None), w') \<longrightarrow>
      (\<exists>xs. FindAllIdsForField db w t f v = (Returns (x # xs, None), w'))) \<and>
   (FindFirstIdForField db w t f v = (Panics IndexOutOfRange, w') \<longrightarrow>
      FindAllIdsForField db w t f v = (Returns ([], None), w'))"
  by (auto simp: FindFirstIdForField_def split: prod.splits outcome.splits option.splits list.splits
      dest: FindAllIdsForField_panic)

lemma FindFirstIdForField_on_result:
  "FindAllIdsForField author_db1 author_world1 ''posts'' ''author'' ''bob'' = (Returns ([], None), author_world1) \<and>
   FindFirstIdForField author_db1 author_world1 ''posts'' ''author'' ''bob'' = (Panics IndexOutOfRange, author_world1) \<and>
   FindAllIdsForField author_db1 author_world1 ''posts'' ''author'' ''alice'' = (Returns ([''1''], None), author_world1) \<and>
   FindFirstIdForField author_db1 author_world1 ''posts'' ''author'' ''alice'' = (Returns (''1'', None), author_world1)"
proof -
  have a: "FindAllIdsForField author_db1 author_world1 ''posts'' ''author'' ''bob'' = (Returns ([], None), author_world1)"
    by code_simp
  have b: "FindAllIdsForField author_db1 author_world1 ''posts'' ''author'' ''alice'' = (Returns ([''1''], None), author_world1)"
    by code_simp
  from a FindFirstIdForField_no_match [of author_db1 author_world1 "''posts''" "''author''" "''bob''" author_world1]
  have c: "FindFirstIdForField author_db1 author_world1 ''posts'' ''author'' ''bob'' = (Panics IndexOutOfRange, author_world1)"
    by blast
  from b FindFirstIdForField_no_match [of author_db1 author_world1 "''posts''" "''author''" "''alice''" author_world1 "''1''" "[]"]
  have d: "FindFirstIdForField author_db1 author_world1 ''posts'' ''author'' ''alice'' = (Returns (''1'', None), author_world1)"
    by blast
  from a b c d show ?thesis by blast
qed

subsection \<open>Other tables are left alone\<close>

lemma OpenDB_two_db: "OpenDB two_world (fieldsToIndex two_db) = (Returns (Some two_db, None), two_world)"
  by (simp add: OpenDB_def two_world_def two_db_def initTblIndexes_def initNonTagsIndexes_def
      initTagsIndex_def clearTags_def configFor_def fileIdsInDataDir_def ReadDir_def Ext_def
      ReadFile_def lookupFile_def tblDir_def fileName_def)

lemma initTblIndexes_frame:
  "t' \<noteq> tblName \<Longrightarrow> initTblIndexes db w tblName = (r, db', w') \<Longrightarrow>
   fldIndexes db' t' = fldIndexes db t' \<and> tagIndexes db' t' = tagIndexes db t'"
  by (auto simp: initTblIndexes_def initNonTagsIndexes_def initTagsIndex_def clearTags_def Let_def
      split: option.splits prod.splits outcome.splits if_splits)

lemma initTblIndexes_frame_sel:
  "t' \<noteq> tblName \<Longrightarrow>
   fldIndexes (fst (snd (initTblIndexes db w tblName))) t' = fldIndexes db t' \<and>
   tagIndexes (fst (snd (initTblIndexes db w tblName))) t' = tagIndexes db t'"
  using initTblIndexes_frame [of t' tblName db w] by (cases "initTblIndexes db w tblName") auto

text \<open>
  Claim C9. Whatever \<open>Create\<close>, \<open>Update\<close> or \<open>Delete\<close> on a table does (return, return an
  error, panic), the handle it leaves holds, for every other table, the field index and
  the tag index that table had before.
\<close>

theorem mutations_leave_other_tables:
  "t' \<noteq> tblName \<Longrightarrow>
   fldIndexes (fst (snd (Create db w tblName r))) t' = fldIndexes db t' \<and>
   tagIndexes (fst (snd (Create db w tblName r))) t' = tagIndexes db t' \<and>
   fldIndexes (fst (snd (Update db w tblName r fileId))) t' = fldIndexes db t' \<and>
   tagIndexes (fst (snd (Update db w tblName r fileId))) t' = tagIndexes db t' \<and>
   fldIndexes (fst (snd (Delete db w tblName fileId))) t' = fldIndexes db t' \<and>
   tagIndexes (fst (snd (Delete db w tblName fileId))) t' = tagIndexes db t'"
proof -
  assume ne: "t' \<noteq> tblName"
  have c: "fldIndexes (fst (snd (Create db w tblName r))) t' = fldIndexes db t' \<and>
           tagIndexes (fst (snd (Create db w tblName r))) t' = tagIndexes db t'"
    using ne
    by (auto simp: Create_def split: prod.splits option.splits sum.splits outcome.splits
        dest: initTblIndexes_frame)
  have u: "fldIndexes (fst (snd (Update db w tblName r fileId))) t' = fldIndexes db t' \<and>
           tagIndexes (fst (snd (Update db w tblName r fileId))) t' = tagIndexes db t'"
    using ne initTblIndexes_frame_sel [of t' tblName db]
    by (auto simp: Update_def split: prod.splits option.splits sum.splits)
  have d: "fldIndexes (fst (snd (Delete db w tblName fileId))) t' = fldIndexes db t' \<and>
           tagIndexes (fst (snd (Delete db w tblName fileId))) t' = tagIndexes db t'"
    using ne initTblIndexes_frame_sel [of t' tblName db]
    by (auto simp: Delete_def split: prod.splits option.splits sum.splits)
  from c u d show ?thesis by simp
qed

theorem mutations_leave_other_tables_witness:
  "''users'' \<noteq> ''posts'' \<and>
   indexLookup (fst (snd (Create two_db two_world ''posts'' alice))) ''posts'' ''author'' ''alice'' = Some [''1''] \<and>
   fldIndexes (fst (snd (Create two_db two_world ''posts'' alice))) ''users'' = fldIndexes two_db ''users'' \<and>
   tagIndexes (fst (snd (Create two_db two_world ''posts'' alice))) ''users'' = tagIndexes two_db ''users''"
proof -
  have a: "indexLookup (fst (snd (Create two_db two_world ''posts'' alice))) ''posts'' ''author'' ''alice'' = Some [''1'']"
    by code_simp
  have b: "''users'' \<noteq> ''posts''" by simp
  from a b mutations_leave_other_tables [OF b, of two_db two_world alice] show ?thesis by blast
qed

subsection \<open>Failures of the rebuild\<close>

lemma OpenDB_tags_db: "OpenDB tags_world tags_cfg = (Returns (Some tags_db, None), tags_world)"
  by (simp add: OpenDB_def tags_world_def tags_db_def tags_cfg_def initTblIndexes_def
      initNonTagsIndexes_def initTagsIndex_def clearTags_def configFor_def fileIdsInDataDir_def
      ReadDir_def Ext_def ReadFile_def lookupFile_def tblDir_def fileName_def)

text \<open>
  Claim C6 at the failing input. The table \<open>posts\<close> is configured with \<open>tags\<close> and holds
  one record; the third read after the call fails. \<open>Create\<close> writes \<open>2.json\<close>, the field
  pass of the rebuild reads both files, the tag pass fails on its first read and
  \<open>initTagsIndex\<close> returns the I/O error. \<open>Create\<close> returns the id \<open>2\<close> with a nil error, and
  the tag index of the table is left empty.
\<close>

theorem Create_hides_tag_rebuild_failure:
  "fst (initNonTagsIndexes tags_db written_world ''posts'') = Returns None \<and>
   fst (initTagsIndex (fst (snd (initNonTagsIndexes tags_db written_world ''posts'')))
          (snd (snd (initNonTagsIndexes tags_db written_world ''posts''))) ''posts'') = Returns (Some IOFault) \<and>
   fst (Create tags_db faulty_world ''posts'' tagged_db) = Returns (''2'', None) \<and>
   tagIndexOf (fst (snd (Create tags_db faulty_world ''posts'' tagged_db))) ''posts'' ''go'' = None \<and>
   tagIndexOf (fst (snd (Create tags_db faulty_world ''posts'' tagged_db))) ''posts'' ''db'' = None"
  by code_simp

subsection \<open>The indexes and the files\<close>

text \<open>
  Claim C1 at the failing input. On a table that indexes \<open>author\<close>, a record with author
  \<open>alice\<close> is created and then a record that has no \<open>author\<close> at all. Both calls succeed.
  The map the rebuild decodes into still holds the author of the first record when the
  second is decoded, so the bucket of \<open>(author, alice)\<close> lists both ids, although file
  \<open>2.json\<close> has no such field.
\<close>

theorem index_keeps_field_of_previous_record:
  "fst (Create author_db ex_world ''posts'' alice) = Returns (''1'', None) \<and>
   fst (Create author_db1 author_world1 ''posts'' titled) = Returns (''2'', None) \<and>
   lookupFile author_world2 ''posts'' ''2.json'' = Inr (Doc (JObject [(''title'', JString ''x'')])) \<and>
   indexLookup author_db2 ''posts'' ''author'' ''alice'' = Some [''1'', ''2'']"
  by code_simp

subsection \<open>Identifier allocation\<close>

lemma of_char_digit: "(d::nat) < 10 \<Longrightarrow> (of_char (char_of (48 + d) :: char) :: nat) = 48 + d"
  by (simp add: of_char_of)

lemma isDigit_digit: "(d::nat) < 10 \<Longrightarrow> isDigit (char_of (48 + d))"
  by (simp add: isDigit_def of_char_digit)

lemma digitsVal_append: "digitsVal n (xs @ ys) = digitsVal (digitsVal n xs) ys"
  by (induction xs arbitrary: n) auto

lemma dec_digits: "list_all isDigit (dec k)"
proof (induction k rule: dec.induct)
  case (1 n)
  show ?case
  proof (cases "n < 10")
    case True
    then show ?thesis by (simp add: isDigit_digit)
  next
    case False
    with 1 show ?thesis by (subst dec.simps) (simp add: isDigit_digit)
  qed
qed

lemma dec_nonempty: "dec k \<noteq> []"
  by (subst dec.simps) simp

lemma dec_val: "digitsVal 0 (dec k) = int k"
proof (induction k rule: dec.induct)
  case (1 n)
  show ?case
  proof (cases "n < 10")
    case True
    then show ?thesis by (simp add: of_char_digit)
  next
    case False
    with 1 have "digitsVal 0 (dec (n div 10)) = int (n div 10)" by simp
    with False show ?thesis
      by (subst dec.simps) (simp add: digitsVal_append of_char_digit zdiv_int zmod_int)
  qed
qed

lemma isDigit_not_sign: "isDigit c \<Longrightarrow> c \<noteq> CHR ''-'' \<and> c \<noteq> CHR ''+''"
  by (auto simp: isDigit_def)

lemma Atoi_Itoa: "minInt \<le> m \<Longrightarrow> m \<le> maxInt \<Longrightarrow> Atoi (Itoa m) = Inr m"
proof (cases "m < 0")
  case True
  assume "minInt \<le> m" "m \<le> maxInt"
  with True show ?thesis
    using dec_digits [of "nat (- m)"] dec_nonempty [of "nat (- m)"] dec_val [of "nat (- m)"]
    by (simp add: Atoi_def Itoa_def)
next
  case False
  assume r: "minInt \<le> m" "m \<le> maxInt"
  obtain c cs where d: "dec (nat m) = c # cs" using dec_nonempty [of "nat m"] by (cases "dec (nat m)") auto
  with dec_digits [of "nat m"] have "isDigit c" by simp
  then have "c \<noteq> CHR ''-''" "c \<noteq> CHR ''+''" using isDigit_not_sign by auto
  with False r d show ?thesis
    using dec_digits [of "nat m"] dec_val [of "nat m"]
    by (simp add: Atoi_def Itoa_def)
qed

lemma Atoi_range: "Atoi s = Inr n \<Longrightarrow> minInt \<le> n \<and> n \<le> maxInt"
  by (auto simp: Atoi_def Let_def split: list.splits if_splits)

lemma wrap64_range: "minInt \<le> wrap64 x \<and> wrap64 x \<le> maxInt"
  unfolding wrap64_def minInt_def maxInt_def
  using pos_mod_bound [of "2 ^ 64" "x + 2 ^ 63"] pos_mod_sign [of "2 ^ 64" "x + 2 ^ 63"]
  by simp

lemma wrap64_succ: "minInt \<le> n \<Longrightarrow> n < maxInt \<Longrightarrow> wrap64 (n + 1) = n + 1"
  unfolding wrap64_def minInt_def maxInt_def by (simp add: mod_pos_pos_trivial)

lemma wrap64_max: "wrap64 (maxInt + 1) = minInt"
  unfolding wrap64_def minInt_def maxInt_def by simp

lemma atoiAll_Inr_D: "atoiAll fs = Inr ns \<Longrightarrow> list_all2 (\<lambda>f n. Atoi f = Inr n) fs ns"
  by (induction fs arbitrary: ns) (auto split: sum.splits)

lemma atoiAll_Inr_I: "list_all2 (\<lambda>f n. Atoi f = Inr n) fs ns \<Longrightarrow> atoiAll fs = Inr ns"
  by (induction rule: list_all2_induct) auto

lemma atoiAll_Inr: "atoiAll fs = Inr ns \<longleftrightarrow> list_all2 (\<lambda>f n. Atoi f = Inr n) fs ns"
  using atoiAll_Inr_D atoiAll_Inr_I by blast

lemma atoiAll_Inl: "atoiAll fs = Inl e \<Longrightarrow> \<exists>f \<in> set fs. Atoi f = Inl e"
  by (induction fs) (auto split: sum.splits)

lemma atoiAll_fails: "f \<in> set fs \<Longrightarrow> Atoi f = Inl e \<Longrightarrow> \<exists>e'. atoiAll fs = Inl e'"
  by (induction fs) (auto split: sum.splits)

lemma sorted_last_Max: "sorted xs \<Longrightarrow> xs \<noteq> [] \<Longrightarrow> last xs = Max (set (xs :: int list))"
proof (induction xs)
  case Nil
  then show ?case by simp
next
  case (Cons x xs)
  show ?case
  proof (cases "xs = []")
    case True
    then show ?thesis by simp
  next
    case False
    with Cons have l: "last xs = Max (set xs)" by simp
    from False have "Max (set xs) \<in> set xs" by simp
    with Cons.prems have "x \<le> Max (set xs)" by auto
    with False l show ?thesis by (simp add: max_def)
  qed
qed

lemma last_sort_Max: "ns \<noteq> [] \<Longrightarrow> last (sort ns) = Max (set (ns :: int list))"
proof -
  assume ne: "ns \<noteq> []"
  have "set (sort ns) = set ns" by simp
  moreover from ne have "sort ns \<noteq> []" using \<open>set (sort ns) = set ns\<close> by (metis set_empty)
  moreover have "sorted (sort ns)" by simp
  ultimately show ?thesis using sorted_last_Max [of "sort ns"] by simp
qed

lemma Ext_json: "Ext (s @ ''.json'') = ''.json''"
  by (simp add: Ext_def)

lemma stem_fileName: "take (length (fileName s) - 5) (fileName s) = s"
  by (simp add: fileName_def)

lemma map_of_put: "map_of (put k v es) = (map_of es)(k \<mapsto> v)"
  by (induction es) (auto simp: fun_eq_iff)

lemma put_mem: "(k, v) \<in> set (put k v es)"
  by (induction es) auto

lemma put_subset: "set (put k v es) \<subseteq> insert (k, v) (set es)"
  by (induction es) (auto split: if_splits)

lemma put_keeps: "e \<in> set es \<Longrightarrow> fst e \<noteq> k \<Longrightarrow> e \<in> set (put k v es)"
  by (induction es) auto

lemma fileIds_set:
  "tblDir w tbl = Some es \<Longrightarrow>
   set (fileIdsInDataDir w tbl) =
     (\<lambda>e. take (length (fst e) - 5) (fst e)) ` {e \<in> set es. \<not> isDir (snd e) \<and> Ext (fst e) = ''.json''}"
  by (auto simp: tblDir_def fileIdsInDataDir_def ReadDir_def split: option.splits node.splits)

lemma fileIds_root: "root w' = root w \<Longrightarrow> fileIdsInDataDir w' tbl = fileIdsInDataDir w tbl"
  by (simp add: fileIdsInDataDir_def ReadDir_def)

lemma WriteFile_ok:
  "WriteFile w tbl name data = (None, w') \<Longrightarrow>
   \<exists>es. tblDir w tbl = Some es \<and> tblDir w' tbl = Some (put name (File data) es)"
  by (auto simp: WriteFile_def tblDir_def map_of_put split: option.splits node.splits)

lemma WriteFile_ids:
  assumes "WriteFile w tbl (fileName fileId) data = (None, w')"
  shows "set (fileIdsInDataDir w' tbl) = insert fileId (set (fileIdsInDataDir w tbl))"
proof -
  let ?stem = "\<lambda>e::string \<times> node. take (length (fst e) - 5) (fst e)"
  let ?ok = "\<lambda>e::string \<times> node. \<not> isDir (snd e) \<and> Ext (fst e) = ''.json''"
  from WriteFile_ok [OF assms] obtain es where
    es: "tblDir w tbl = Some es" "tblDir w' tbl = Some (put (fileName fileId) (File data) es)"
    by blast
  let ?new = "(fileName fileId, File data)"
  have new_ok: "?ok ?new" "?stem ?new = fileId"
    by (simp_all add: fileName_def Ext_json)
  have "?stem ` {e \<in> set (put (fileName fileId) (File data) es). ?ok e} = insert fileId (?stem ` {e \<in> set es. ?ok e})"
  proof (intro set_eqI iffI)
    fix x assume "x \<in> ?stem ` {e \<in> set (put (fileName fileId) (File data) es). ?ok e}"
    then obtain e where e: "e \<in> set (put (fileName fileId) (File data) es)" "?ok e" "x = ?stem e" by blast
    from e(1) put_subset have "e = ?new \<or> e \<in> set es" by fastforce
    with e new_ok show "x \<in> insert fileId (?stem ` {e \<in> set es. ?ok e})" by auto
  next
    fix x assume x: "x \<in> insert fileId (?stem ` {e \<in> set es. ?ok e})"
    show "x \<in> ?stem ` {e \<in> set (put (fileName fileId) (File data) es). ?ok e}"
    proof (cases "x = fileId")
      case True
      with new_ok put_mem [of "fileName fileId" "File data" es] show ?thesis by force
    next
      case False
      with x obtain e where e: "e \<in> set es" "?ok e" "x = ?stem e" by blast
      with False have "fst e \<noteq> fileName fileId" using stem_fileName by auto
      with e put_keeps show ?thesis by blast
    qed
  qed
  with es show ?thesis by (simp add: fileIds_set)
qed


lemma ReadFile_root: "ReadFile w t n = (r, w') \<Longrightarrow> root w' = root w"
  by (auto simp: ReadFile_def split: list.splits bool.splits)

lemma nonTagsLoop_root: "nonTagsLoop t flds ids rec ix w = (r, ix', w') \<Longrightarrow> root w' = root w"
proof (induction ids arbitrary: rec ix w)
  case Nil
  then show ?case by simp
next
  case (Cons i ids)
  then show ?case
    by (auto split: prod.splits sum.splits option.splits dest!: ReadFile_root)
qed

lemma tagsLoop_root: "tagsLoop t ids rec ti w = (r, ti', w') \<Longrightarrow> root w' = root w"
proof (induction ids arbitrary: rec ti w)
  case Nil
  then show ?case by simp
next
  case (Cons i ids)
  then show ?case
    by (auto split: prod.splits sum.splits option.splits iface.splits dest!: ReadFile_root)
qed

lemma initNonTagsIndexes_root: "initNonTagsIndexes db w t = (r, db', w') \<Longrightarrow> root w' = root w"
  by (auto simp: initNonTagsIndexes_def split: prod.splits dest: nonTagsLoop_root)

lemma initTagsIndex_root: "initTagsIndex db w t = (r, db', w') \<Longrightarrow> root w' = root w"
  by (auto simp: initTagsIndex_def Let_def split: prod.splits outcome.splits option.splits dest: tagsLoop_root)

lemma initTblIndexes_root: "initTblIndexes db w t = (r, db', w') \<Longrightarrow> root w' = root w"
  by (auto simp: initTblIndexes_def split: prod.splits outcome.splits option.splits if_splits
      dest!: initNonTagsIndexes_root initTagsIndex_root)

lemma Create_written:
  "Create db w tbl r = (Returns (id1, e1), db1, w1) \<Longrightarrow> id1 \<noteq> [] \<Longrightarrow>
   \<exists>data wa. nextAvailableFileId w tbl = (id1, None) \<and>
     WriteFile w tbl (fileName id1) data = (None, wa) \<and> root w1 = root wa"
  by (auto simp: Create_def split: if_splits prod.splits option.splits sum.splits outcome.splits
      dest: initTblIndexes_root)

lemma list_all2_ex: "(\<forall>x \<in> set xs. \<exists>y. P x y) \<Longrightarrow> \<exists>ys. list_all2 P xs ys"
proof (induction xs)
  case Nil
  then show ?case by simp
next
  case (Cons x xs)
  then obtain y ys where "P x y" "list_all2 P xs ys" by auto
  then have "list_all2 P (x # xs) (y # ys)" by simp
  then show ?case by blast
qed

lemma parsed_set:
  "list_all2 (\<lambda>f n. Atoi f = Inr n) fs ns \<Longrightarrow> set ns = {n. \<exists>f \<in> set fs. Atoi f = Inr n}"
  by (induction rule: list_all2_induct) auto

lemma next_id_parsed:
  assumes "list_all2 (\<lambda>f n. Atoi f = Inr n) (fileIdsInDataDir w tbl) ns"
  shows "nextAvailableFileId w tbl =
           (if ns = [] then (''1'', None) else (Itoa (wrap64 (Max (set ns) + 1)), None))"
  using assms atoiAll_Inr_I [OF assms] by (simp add: nextAvailableFileId_def last_sort_Max)

lemma next_id_error:
  assumes "f \<in> set (fileIdsInDataDir w tbl)" "Atoi f = Inl e"
  shows "\<exists>f' e'. f' \<in> set (fileIdsInDataDir w tbl) \<and> Atoi f' = Inl e' \<and>
           nextAvailableFileId w tbl = ([], Some e')"
proof -
  from atoiAll_fails [OF assms] obtain e' where e': "atoiAll (fileIdsInDataDir w tbl) = Inl e'" by blast
  with atoiAll_Inl obtain f' where "f' \<in> set (fileIdsInDataDir w tbl)" "Atoi f' = Inl e'" by blast
  with e' show ?thesis by (auto simp: nextAvailableFileId_def)
qed

lemma next_id_ok:
  assumes "nextAvailableFileId w tbl = (fileId, None)"
  shows "\<exists>ns. list_all2 (\<lambda>f n. Atoi f = Inr n) (fileIdsInDataDir w tbl) ns"
  using assms by (auto simp: nextAvailableFileId_def atoiAll_Inr split: sum.splits)

lemma Atoi_1: "Atoi ''1'' = Inr 1"
  by (simp add: Atoi_def isDigit_def minInt_def maxInt_def)

lemma Max_below:
  assumes "list_all2 (\<lambda>f n. Atoi f = Inr n) fs ns" "ns \<noteq> []" "\<forall>f \<in> set fs. Atoi f \<noteq> Inr maxInt"
  shows "minInt \<le> Max (set ns) \<and> Max (set ns) < maxInt"
proof -
  from assms(2) have "Max (set ns) \<in> set ns" by simp
  with parsed_set [OF assms(1)] obtain f where f: "f \<in> set fs" "Atoi f = Inr (Max (set ns))" by auto
  with assms(3) have "Max (set ns) \<noteq> maxInt" by auto
  with Atoi_range [OF f(2)] show ?thesis by simp
qed

lemma Remove_ok:
  "Remove w tbl name = (None, w') \<Longrightarrow>
   \<exists>es. tblDir w tbl = Some es \<and> tblDir w' tbl = Some (filter (\<lambda>e. fst e \<noteq> name) es)"
  by (auto simp: Remove_def tblDir_def map_of_put split: option.splits node.splits list.splits)

lemma Remove_failed: "Remove w tbl name = (Some e, w') \<Longrightarrow> w' = w"
  by (auto simp: Remove_def split: option.splits node.splits list.splits)

lemma ext_scan_suffix:
  "ext_scan cs acc \<noteq> [] \<Longrightarrow> \<exists>pre. rev cs @ acc = pre @ ext_scan cs acc"
proof (induction cs arbitrary: acc)
  case Nil
  then show ?case by simp
next
  case (Cons c cs)
  show ?case
  proof (cases "c = CHR ''.''")
    case True
    then show ?thesis by simp
  next
    case False
    with Cons.prems have "c \<noteq> CHR ''/''" "ext_scan cs (c # acc) \<noteq> []" by (auto split: if_splits)
    with Cons.IH [of "c # acc"] False show ?thesis by simp
  qed
qed

lemma Ext_stem: "Ext n = ''.json'' \<Longrightarrow> fileName (take (length n - 5) n) = n"
proof -
  assume e: "Ext n = ''.json''"
  then have "ext_scan (rev n) [] \<noteq> []" by (simp add: Ext_def)
  from ext_scan_suffix [OF this] e obtain pre where "n = pre @ ''.json''" by (auto simp: Ext_def)
  then show ?thesis by (simp add: fileName_def)
qed

lemma Remove_ids:
  assumes "Remove w tbl (fileName fileId) = (None, w')"
  shows "set (fileIdsInDataDir w' tbl) \<subseteq> set (fileIdsInDataDir w tbl) \<and>
         fileId \<notin> set (fileIdsInDataDir w' tbl) \<and>
         (\<forall>i \<in> set (fileIdsInDataDir w tbl). i \<noteq> fileId \<longrightarrow> i \<in> set (fileIdsInDataDir w' tbl))"
proof -
  let ?stem = "\<lambda>e::string \<times> node. take (length (fst e) - 5) (fst e)"
  let ?ok = "\<lambda>e::string \<times> node. \<not> isDir (snd e) \<and> Ext (fst e) = ''.json''"
  from Remove_ok [OF assms] obtain es where
    es: "tblDir w tbl = Some es" "tblDir w' tbl = Some (filter (\<lambda>e. fst e \<noteq> fileName fileId) es)"
    by blast
  have ids: "set (fileIdsInDataDir w tbl) = ?stem ` {e \<in> set es. ?ok e}"
    "set (fileIdsInDataDir w' tbl) = ?stem ` {e \<in> set es. fst e \<noteq> fileName fileId \<and> ?ok e}"
    using es by (auto simp: fileIds_set)
  have a: "set (fileIdsInDataDir w' tbl) \<subseteq> set (fileIdsInDataDir w tbl)"
    unfolding ids by blast
  have b: "fileId \<notin> set (fileIdsInDataDir w' tbl)"
  proof
    assume "fileId \<in> set (fileIdsInDataDir w' tbl)"
    then obtain e where e: "e \<in> set es" "fst e \<noteq> fileName fileId" "?ok e" "fileId = ?stem e"
      unfolding ids by blast
    from e(3) Ext_stem [of "fst e"] e(4) have "fst e = fileName fileId" by simp
    with e(2) show False by simp
  qed
  have c: "\<forall>i \<in> set (fileIdsInDataDir w tbl). i \<noteq> fileId \<longrightarrow> i \<in> set (fileIdsInDataDir w' tbl)"
  proof (intro ballI impI)
    fix i assume "i \<in> set (fileIdsInDataDir w tbl)" and ne: "i \<noteq> fileId"
    then obtain e where e: "e \<in> set es" "?ok e" "i = ?stem e" unfolding ids by blast
    with ne have "fst e \<noteq> fileName fileId" using stem_fileName by auto
    with e show "i \<in> set (fileIdsInDataDir w' tbl)" unfolding ids by blast
  qed
  from a b c show ?thesis by blast
qed

lemma Delete_ids:
  assumes "Delete db w tbl fileId = (res, db', w')"
  shows "set (fileIdsInDataDir w' tbl) \<subseteq> set (fileIdsInDataDir w tbl) \<and>
         (\<forall>i \<in> set (fileIdsInDataDir w tbl). i \<noteq> fileId \<longrightarrow> i \<in> set (fileIdsInDataDir w' tbl))"
proof (cases "\<exists>w1. Remove w tbl (fileName fileId) = (None, w1) \<and> root w' = root w1")
  case True
  then obtain w1 where "Remove w tbl (fileName fileId) = (None, w1)" "root w' = root w1" by blast
  with Remove_ids [of w tbl fileId w1] fileIds_root [of w' w1 tbl] show ?thesis by simp
next
  case False
  with assms have "root w' = root w"
    by (auto simp: Delete_def split: sum.splits if_splits prod.splits option.splits
        dest: initTblIndexes_root Remove_failed)
  with fileIds_root [of w' w tbl] show ?thesis by simp
qed


lemma list_all2_memD: "list_all2 P xs ys \<Longrightarrow> x \<in> set xs \<Longrightarrow> \<exists>y \<in> set ys. P x y"
  by (induction rule: list_all2_induct) auto

lemma next_after_max:
  assumes ns: "list_all2 (\<lambda>f n. Atoi f = Inr n) (fileIdsInDataDir w tbl) ns"
    and mem: "fileId \<in> set (fileIdsInDataDir w tbl)" and at: "Atoi fileId = Inr n"
    and mx: "\<forall>m \<in> set ns. m \<le> n" and lt: "n < maxInt"
  shows "nextAvailableFileId w tbl = (Itoa (n + 1), None)"
proof -
  from parsed_set [OF ns] mem at have n: "n \<in> set ns" by auto
  then have ne: "ns \<noteq> []" by auto
  from n mx have "Max (set ns) = n" by (intro Max_eqI) auto
  moreover from Atoi_range [OF at] have "minInt \<le> n" by simp
  ultimately show ?thesis using next_id_parsed [OF ns] ne lt by (simp add: wrap64_succ)
qed

lemma created_id:
  assumes c: "Create db w tbl r = (Returns (id1, e1), db1, w1)" and ne: "id1 \<noteq> []"
    and h1: "\<forall>f \<in> set (fileIdsInDataDir w tbl). Atoi f \<noteq> Inr maxInt"
  shows "\<exists>n. Atoi id1 = Inr n \<and> set (fileIdsInDataDir w1 tbl) = insert id1 (set (fileIdsInDataDir w tbl)) \<and>
           (\<forall>f \<in> set (fileIdsInDataDir w1 tbl). \<exists>m. Atoi f = Inr m \<and> m \<le> n)"
proof -
  from Create_written [OF c ne] obtain data wa where
    nx: "nextAvailableFileId w tbl = (id1, None)" and
    wr: "WriteFile w tbl (fileName id1) data = (None, wa)" and rt: "root w1 = root wa"
    by blast
  from next_id_ok [OF nx] obtain ns where
    ns: "list_all2 (\<lambda>f n. Atoi f = Inr n) (fileIdsInDataDir w tbl) ns" by blast
  define n where "n = (if ns = [] then 1 else Max (set ns) + 1)"
  have id1: "Atoi id1 = Inr n \<and> (\<forall>m \<in> set ns. m < n)"
  proof (cases "ns = []")
    case True
    with nx next_id_parsed [OF ns] have "id1 = ''1''" by simp
    with True show ?thesis by (simp add: n_def Atoi_1)
  next
    case False
    from Max_below [OF ns False h1] have b: "minInt \<le> Max (set ns)" "Max (set ns) < maxInt" by auto
    with nx next_id_parsed [OF ns] False have "id1 = Itoa (Max (set ns) + 1)"
      by (simp add: wrap64_succ)
    moreover have "Atoi (Itoa (Max (set ns) + 1)) = Inr (Max (set ns) + 1)"
      using b by (intro Atoi_Itoa) auto
    moreover have "\<forall>m \<in> set ns. m < Max (set ns) + 1"
      by (simp add: less_Suc_eq_le zless_add1_eq)
    ultimately show ?thesis using False by (simp add: n_def del: Max_less_iff)
  qed
  have ids': "set (fileIdsInDataDir w1 tbl) = insert id1 (set (fileIdsInDataDir w tbl))"
    using WriteFile_ids [OF wr] fileIds_root [OF rt] by simp
  have "\<forall>f \<in> set (fileIdsInDataDir w1 tbl). \<exists>m. Atoi f = Inr m \<and> m \<le> n"
  proof
    fix f assume "f \<in> set (fileIdsInDataDir w1 tbl)"
    with ids' have "f = id1 \<or> f \<in> set (fileIdsInDataDir w tbl)" by auto
    then show "\<exists>m. Atoi f = Inr m \<and> m \<le> n"
    proof
      assume "f = id1" with id1 show ?thesis by simp
    next
      assume "f \<in> set (fileIdsInDataDir w tbl)"
      with list_all2_memD [OF ns] obtain m where "Atoi f = Inr m" "m \<in> set ns"
        by blast
      with id1 show ?thesis by force
    qed
  qed
  with id1 ids' show ?thesis by blast
qed

lemma ids_after_create:
  assumes c: "Create db w tbl r = (Returns (id1, e1), db1, w1)" and ne: "id1 \<noteq> []"
    and h1: "\<forall>f \<in> set (fileIdsInDataDir w tbl). Atoi f \<noteq> Inr maxInt"
    and h2: "Atoi id1 \<noteq> Inr maxInt"
    and sub: "set (fileIdsInDataDir w2 tbl) \<subseteq> set (fileIdsInDataDir w1 tbl)"
    and mem: "id1 \<in> set (fileIdsInDataDir w2 tbl)"
  shows "\<exists>n. Atoi id1 = Inr n \<and> nextAvailableFileId w2 tbl = (Itoa (n + 1), None)"
proof -
  from created_id [OF c ne h1] obtain n where
    n: "Atoi id1 = Inr n" "\<forall>f \<in> set (fileIdsInDataDir w1 tbl). \<exists>m. Atoi f = Inr m \<and> m \<le> n"
    by blast
  with sub have all: "\<forall>f \<in> set (fileIdsInDataDir w2 tbl). \<exists>m. Atoi f = Inr m \<and> m \<le> n" by blast
  then have "\<forall>f \<in> set (fileIdsInDataDir w2 tbl). \<exists>m. Atoi f = Inr m" by blast
  from list_all2_ex [OF this] obtain ns where
    ns: "list_all2 (\<lambda>f n. Atoi f = Inr n) (fileIdsInDataDir w2 tbl) ns" by blast
  from parsed_set [OF ns] all have "\<forall>m \<in> set ns. m \<le> n" by force
  moreover from n(1) h2 Atoi_range [OF n(1)] have "n < maxInt" by auto
  ultimately show ?thesis using next_after_max [OF ns mem n(1)] n(1) by blast
qed

lemma Atoi_max: "Atoi ''9223372036854775807'' = Inr 9223372036854775807"
  by (simp add: Atoi_def isDigit_def minInt_def maxInt_def)
lemma Atoi_min: "Atoi ''-9223372036854775808'' = Inr (-9223372036854775808)"
  by (simp add: Atoi_def isDigit_def minInt_def maxInt_def)

lemma ids_maxed: "fileIdsInDataDir maxed_world ''posts'' = [''9223372036854775807'']"
  by code_simp
lemma ids_maxed1: "fileIdsInDataDir maxed_world1 ''posts'' = [''-9223372036854775808'', ''9223372036854775807'']"
  by code_simp

lemma Update_maxed: "Update ex_db ex_world ''posts'' alice ''9223372036854775807'' = (Returns None, ex_db, maxed_world)"
  by (simp add: Update_def ex_db_def Atoi_max alice_def WriteFile_def tblDir_def ex_world_def fileName_def maxed_world_def initTblIndexes_def)

lemma next_maxed: "nextAvailableFileId maxed_world ''posts'' = (''-9223372036854775808'', None)"
  by (simp add: nextAvailableFileId_def ids_maxed Atoi_max wrap64_def Itoa_def char_of_eq_iff)

lemma next_maxed1: "nextAvailableFileId maxed_world1 ''posts'' = (''-9223372036854775808'', None)"
  by (simp add: nextAvailableFileId_def ids_maxed1 Atoi_max Atoi_min wrap64_def Itoa_def char_of_eq_iff)

lemma Create_maxed: "Create ex_db maxed_world ''posts'' alice = (Returns (''-9223372036854775808'', None), ex_db, maxed_world1)"
  by (simp add: Create_def next_maxed) (simp add: ex_db_def alice_def WriteFile_def tblDir_def fileName_def maxed_world_def maxed_world1_def initTblIndexes_def)

lemma Create_maxed1: "fst (Create ex_db maxed_world1 ''posts'' alice) = Returns (''-9223372036854775808'', None)"
  by (simp add: Create_def next_maxed1) (simp add: ex_db_def alice_def WriteFile_def tblDir_def fileName_def maxed_world1_def initTblIndexes_def)


text \<open>
  Claim C4, as stated, at the largest \<open>int\<close>. \<open>Update\<close> stores a record under the id
  \<open>9223372036854775807\<close>; the next id is then not the decimal string of the maximum
  plus one, \<open>9223372036854775808\<close>, but \<open>-9223372036854775808\<close>, since \<open>lastFileId + 1\<close>
  wraps around. The \<open>Create\<close> that follows finds the same maximum and returns the same
  id again: two consecutive calls, no delete between them, and the ids do not increase.
\<close>

theorem next_id_wraps_at_max_int:
  "Update ex_db ex_world ''posts'' alice ''9223372036854775807'' = (Returns None, ex_db, maxed_world) \<and>
   fileIdsInDataDir maxed_world ''posts'' = [''9223372036854775807''] \<and>
   Atoi ''9223372036854775807'' = Inr 9223372036854775807 \<and>
   Itoa (9223372036854775807 + 1) = ''9223372036854775808'' \<and>
   nextAvailableFileId maxed_world ''posts'' = (''-9223372036854775808'', None) \<and>
   Create ex_db maxed_world ''posts'' alice = (Returns (''-9223372036854775808'', None), ex_db, maxed_world1) \<and>
   fst (Create ex_db maxed_world1 ''posts'' alice) = Returns (''-9223372036854775808'', None)"
  using Update_maxed ids_maxed Atoi_max next_maxed Create_maxed Create_maxed1
  by (simp add: Itoa_def char_of_eq_iff)

text \<open>
  Claim C4, amended. \<open>nextAvailableFileId\<close> returns \<open>1\<close> when the table has no record
  file. When every stem parses, it returns the decimal string of the maximum plus one
  in 64-bit arithmetic: the maximum plus one while the maximum is below \<open>2^63 - 1\<close>, and
  \<open>-2^63\<close> at that maximum. When some stem does not parse, it returns the empty id and
  the error of \<open>strconv.Atoi\<close> for a stem of the table. When a \<open>Create\<close> has written its
  record under the id \<open>N\<close>, no id of the table being \<open>2^63 - 1\<close>, then in every later state
  of the table that still holds \<open>N\<close> and holds no id that was not there after that
  \<open>Create\<close>, the next id allocated is \<open>N + 1\<close>, and it is the id under which every
  \<open>Create\<close> in that state writes. A \<open>Delete\<close> of another id leads to such a state: it
  adds no id and removes none but its own.
\<close>

theorem nextAvailableFileId_allocation:
  "(fileIdsInDataDir w tbl = [] \<longrightarrow> nextAvailableFileId w tbl = (''1'', None)) \<and>
   (list_all2 (\<lambda>f n. Atoi f = Inr n) (fileIdsInDataDir w tbl) ns \<and> ns \<noteq> [] \<longrightarrow>
      nextAvailableFileId w tbl =
        (Itoa (if Max (set ns) < maxInt then Max (set ns) + 1 else minInt), None)) \<and>
   (f \<in> set (fileIdsInDataDir w tbl) \<and> Atoi f = Inl e \<longrightarrow>
      (\<exists>f' e'. f' \<in> set (fileIdsInDataDir w tbl) \<and> Atoi f' = Inl e' \<and>
         nextAvailableFileId w tbl = ([], Some e'))) \<and>
   (Create db w tbl r = (Returns (newId, err), dbA, wA) \<and> newId \<noteq> [] \<and>
    (\<forall>g \<in> set (fileIdsInDataDir w tbl). Atoi g \<noteq> Inr maxInt) \<and> Atoi newId \<noteq> Inr maxInt \<and>
    set (fileIdsInDataDir wB tbl) \<subseteq> set (fileIdsInDataDir wA tbl) \<and> newId \<in> set (fileIdsInDataDir wB tbl) \<longrightarrow>
      newId \<in> set (fileIdsInDataDir wA tbl) \<and>
      (\<exists>n. Atoi newId = Inr n \<and> nextAvailableFileId wB tbl = (Itoa (n + 1), None) \<and>
         (\<forall>db' r' nextId errB dbB wC. Create db' wB tbl r' = (Returns (nextId, errB), dbB, wC) \<and> nextId \<noteq> [] \<longrightarrow>
            nextId = Itoa (n + 1)))) \<and>
   (Delete db w tbl fileId = (res, db', w') \<longrightarrow>
      set (fileIdsInDataDir w' tbl) \<subseteq> set (fileIdsInDataDir w tbl) \<and>
      (\<forall>i \<in> set (fileIdsInDataDir w tbl). i \<noteq> fileId \<longrightarrow> i \<in> set (fileIdsInDataDir w' tbl)))"
proof (intro conjI impI)
  assume "fileIdsInDataDir w tbl = []"
  then show "nextAvailableFileId w tbl = (''1'', None)"
    by (simp add: nextAvailableFileId_def)
next
  assume a: "list_all2 (\<lambda>f n. Atoi f = Inr n) (fileIdsInDataDir w tbl) ns \<and> ns \<noteq> []"
  then have "Max (set ns) \<in> set ns" by simp
  with a parsed_set [of "fileIdsInDataDir w tbl" ns] obtain g where "Atoi g = Inr (Max (set ns))" by auto
  from Atoi_range [OF this] have "minInt \<le> Max (set ns)" "Max (set ns) \<le> maxInt" by auto
  then have "wrap64 (Max (set ns) + 1) = (if Max (set ns) < maxInt then Max (set ns) + 1 else minInt)"
    using wrap64_succ [of "Max (set ns)"] wrap64_max by (cases "Max (set ns) = maxInt") auto
  with a next_id_parsed [of w tbl ns]
  show "nextAvailableFileId w tbl =
        (Itoa (if Max (set ns) < maxInt then Max (set ns) + 1 else minInt), None)"
    by simp
next
  assume "f \<in> set (fileIdsInDataDir w tbl) \<and> Atoi f = Inl e"
  then show "\<exists>f' e'. f' \<in> set (fileIdsInDataDir w tbl) \<and> Atoi f' = Inl e' \<and>
         nextAvailableFileId w tbl = ([], Some e')"
    using next_id_error by blast
next
  assume a: "Create db w tbl r = (Returns (newId, err), dbA, wA) \<and> newId \<noteq> [] \<and>
    (\<forall>g \<in> set (fileIdsInDataDir w tbl). Atoi g \<noteq> Inr maxInt) \<and> Atoi newId \<noteq> Inr maxInt \<and>
    set (fileIdsInDataDir wB tbl) \<subseteq> set (fileIdsInDataDir wA tbl) \<and> newId \<in> set (fileIdsInDataDir wB tbl)"
  then show "newId \<in> set (fileIdsInDataDir wA tbl)" by blast
  from a obtain n where n: "Atoi newId = Inr n" "nextAvailableFileId wB tbl = (Itoa (n + 1), None)"
    using ids_after_create [of db w tbl r newId err dbA wA wB] by blast
  have "\<forall>db' r' nextId errB dbB wC. Create db' wB tbl r' = (Returns (nextId, errB), dbB, wC) \<and> nextId \<noteq> [] \<longrightarrow>
            nextId = Itoa (n + 1)"
    using n(2) Create_written by fastforce
  with n show "\<exists>n. Atoi newId = Inr n \<and> nextAvailableFileId wB tbl = (Itoa (n + 1), None) \<and>
         (\<forall>db' r' nextId errB dbB wC. Create db' wB tbl r' = (Returns (nextId, errB), dbB, wC) \<and> nextId \<noteq> [] \<longrightarrow>
            nextId = Itoa (n + 1))"
    by blast
next
  assume "Delete db w tbl fileId = (res, db', w')"
  from Delete_ids [OF this]
  show "set (fileIdsInDataDir w' tbl) \<subseteq> set (fileIdsInDataDir w tbl)"
    and "\<forall>i \<in> set (fileIdsInDataDir w tbl). i \<noteq> fileId \<longrightarrow> i \<in> set (fileIdsInDataDir w' tbl)"
    by blast+
qed

lemma Create_bob:
  "Create author_db1 author_world1 ''posts'' bob = (Returns (''2'', None), pair_db, pair_world)"
proof -
  have "fst (Create author_db1 author_world1 ''posts'' bob) = Returns (''2'', None)" by code_simp
  then show ?thesis by (simp add: pair_db_def pair_world_def prod_eq_iff)
qed

lemma Delete_first:
  "Delete pair_db pair_world ''posts'' ''1'' = (Returns None, single_db, single_world)"
proof -
  have "fst (Delete pair_db pair_world ''posts'' ''1'') = Returns None" by code_simp
  then show ?thesis by (simp add: single_db_def single_world_def prod_eq_iff)
qed

theorem nextAvailableFileId_allocation_witness:
  "fileIdsInDataDir ex_world ''posts'' = [] \<and> nextAvailableFileId ex_world ''posts'' = (''1'', None) \<and>
   list_all2 (\<lambda>f n. Atoi f = Inr n) (fileIdsInDataDir author_world1 ''posts'') [1] \<and>
   nextAvailableFileId author_world1 ''posts'' = (''2'', None) \<and>
   ''x'' \<in> set (fileIdsInDataDir odd_world ''posts'') \<and> Atoi ''x'' = Inl NumSyntax \<and>
   nextAvailableFileId odd_world ''posts'' = ([], Some NumSyntax) \<and>
   Create author_db1 author_world1 ''posts'' bob = (Returns (''2'', None), pair_db, pair_world) \<and>
   fileIdsInDataDir author_world1 ''posts'' = [''1''] \<and> Atoi ''1'' \<noteq> Inr maxInt \<and> Atoi ''2'' \<noteq> Inr maxInt \<and>
   Delete pair_db pair_world ''posts'' ''1'' = (Returns None, single_db, single_world) \<and>
   fileIdsInDataDir single_world ''posts'' = [''2''] \<and>
   nextAvailableFileId single_world ''posts'' = (''3'', None)"
proof -
  have e: "fileIdsInDataDir ex_world ''posts'' = []" by code_simp
  have i1: "fileIdsInDataDir author_world1 ''posts'' = [''1'']" by code_simp
  have i2: "fileIdsInDataDir pair_world ''posts'' = [''1'', ''2'']" by code_simp
  have i3: "fileIdsInDataDir single_world ''posts'' = [''2'']" by code_simp
  note d = Delete_first
  have a2: "Atoi ''2'' = Inr 2" by (simp add: Atoi_def isDigit_def minInt_def maxInt_def)
  have l: "list_all2 (\<lambda>f n. Atoi f = Inr n) (fileIdsInDataDir author_world1 ''posts'') [1]"
    by (simp add: i1 Atoi_1)
  have x: "''x'' \<in> set (fileIdsInDataDir odd_world ''posts'')" by code_simp
  have ox: "fileIdsInDataDir odd_world ''posts'' = [''x'']" by code_simp
  have ax: "Atoi ''x'' = Inl NumSyntax" by (simp add: Atoi_def isDigit_def)
  have it: "Itoa 2 = ''2''" "Itoa 3 = ''3''" by (simp_all add: Itoa_def char_of_eq_iff)
  have m: "Atoi ''2'' \<noteq> Inr maxInt" by (simp add: a2 maxInt_def)
  have h: "\<forall>g \<in> set (fileIdsInDataDir author_world1 ''posts''). Atoi g \<noteq> Inr maxInt"
    by (simp add: i1 Atoi_1 maxInt_def)
  note t = nextAvailableFileId_allocation
  from e t [of ex_world "''posts''"] have p1: "nextAvailableFileId ex_world ''posts'' = (''1'', None)" by blast
  from l t [of author_world1 "''posts''" "[1]"] it
  have p2: "nextAvailableFileId author_world1 ''posts'' = (''2'', None)" by (simp add: maxInt_def)
  from x ax t [of odd_world "''posts''" _ "''x''" NumSyntax] ox
  have p3: "nextAvailableFileId odd_world ''posts'' = ([], Some NumSyntax)" by auto
  have s: "set (fileIdsInDataDir single_world ''posts'') \<subseteq> set (fileIdsInDataDir pair_world ''posts'')"
    "''2'' \<in> set (fileIdsInDataDir single_world ''posts'')"
    by (simp_all add: i2 i3)
  from Create_bob h m s
    t [where w = author_world1 and tbl = "''posts''" and db = author_db1 and r = bob and newId = "''2''"
        and err = None and dbA = pair_db and wA = pair_world and wB = single_world and ns = "[]"
        and f = "[]" and e = NumSyntax and fileId = "[]" and res = "Returns None" and db' = pair_db
        and w' = pair_world]
  have "\<exists>n. Atoi ''2'' = Inr n \<and> nextAvailableFileId single_world ''posts'' = (Itoa (n + 1), None)"
    by blast
  then obtain n where "Atoi ''2'' = Inr n" "nextAvailableFileId single_world ''posts'' = (Itoa (n + 1), None)"
    by blast
  with a2 it have p4: "nextAvailableFileId single_world ''posts'' = (''3'', None)" by simp
  have m1: "Atoi ''1'' \<noteq> Inr maxInt" by (simp add: Atoi_1 maxInt_def)
  from e l p1 p2 p3 p4 x ax Create_bob i1 m1 m d i3 show ?thesis by blast
qed

subsection \<open>The field index and the scan\<close>

lemma stringInSlice_iff: "stringInSlice s list \<longleftrightarrow> s \<in> set list"
  by (induction list) auto

lemma initFlds_apply:
  "initFlds flds ix f = (if f \<in> set flds \<and> f \<noteq> ''tags'' then Some Map.empty else ix f)"
  by (induction flds arbitrary: ix) auto

lemma indexFields_strings:
  "indexFields flds rec i ix = (None, ix') \<Longrightarrow> f \<in> set flds \<Longrightarrow> f \<noteq> ''tags'' \<Longrightarrow>
   \<exists>s. rec f = Some (JString s)"
proof (induction flds arbitrary: ix)
  case Nil
  then show ?case by simp
next
  case (Cons g flds)
  then show ?case
    by (auto split: if_splits option.splits iface.splits)
qed

lemma indexFields_buckets:
  "indexFields flds rec i ix = (None, ix') \<Longrightarrow> ix f = Some b \<Longrightarrow>
   \<exists>b'. ix' f = Some b' \<and>
     (\<forall>v. bucketIds b' v =
        bucketIds b v \<union> (if f \<in> set flds \<and> f \<noteq> ''tags'' \<and> rec f = Some (JString v) then {i} else {}))"
proof (induction flds arbitrary: ix b)
  case Nil
  then show ?case by simp
next
  case (Cons g flds)
  show ?case
  proof (cases "g = ''tags''")
    case True
    with Cons.prems(1) have "indexFields flds rec i ix = (None, ix')" by simp
    from Cons.IH [OF this Cons.prems(2)] obtain b' where
      b': "ix' f = Some b'" "\<forall>v. bucketIds b' v =
          bucketIds b v \<union> (if f \<in> set flds \<and> f \<noteq> ''tags'' \<and> rec f = Some (JString v) then {i} else {})"
      by blast
    have "\<And>v. (f \<in> set (g # flds) \<and> f \<noteq> ''tags'' \<and> rec f = Some (JString v)) =
               (f \<in> set flds \<and> f \<noteq> ''tags'' \<and> rec f = Some (JString v))"
      using True by auto
    with b' show ?thesis by simp
  next
    case False
    with Cons.prems(1) obtain s bg where s: "rec g = Some (JString s)" and bg: "ix g = Some bg"
      by (auto split: option.splits iface.splits)
    define bg' where "bg' = (case bg s of None \<Rightarrow> bg(s \<mapsto> [i])
                              | Some fileIds \<Rightarrow> if i \<in> set fileIds then bg else bg(s \<mapsto> fileIds @ [i]))"
    have step: "indexFields flds rec i (ix(g \<mapsto> bg')) = (None, ix')"
      using Cons.prems(1) False s bg
      by (auto simp: bg'_def stringInSlice_iff fun_upd_idem split: option.splits)
    have bg'v: "\<And>v. bucketIds bg' v = bucketIds bg v \<union> (if v = s then {i} else {})"
      by (auto simp: bg'_def bucketIds_def split: option.splits)
    show ?thesis
    proof (cases "f = g")
      case True
      with Cons.prems(2) bg have "b = bg" by simp
      from True have "(ix(g \<mapsto> bg')) f = Some bg'" by simp
      from Cons.IH [OF step this] obtain b' where
        b': "ix' f = Some b'" "\<forall>v. bucketIds b' v =
          bucketIds bg' v \<union> (if f \<in> set flds \<and> f \<noteq> ''tags'' \<and> rec f = Some (JString v) then {i} else {})"
        by auto
      with bg'v \<open>b = bg\<close> True False s show ?thesis by auto
    next
      case ne: False
      with Cons.prems(2) have "(ix(g \<mapsto> bg')) f = Some b" by simp
      from Cons.IH [OF step this] ne show ?thesis by auto
    qed
  qed
qed

lemma ReadFile_same:
  assumes "ReadFile w tbl n = (Inr data, w1)" "root w2 = root w" "True \<notin> set (faults w2)"
  shows "\<exists>w3. ReadFile w2 tbl n = (Inr data, w3) \<and> root w3 = root w1 \<and> True \<notin> set (faults w3)"
proof -
  from assms(1) have "lookupFile w tbl n = Inr data" "root w1 = root w"
    by (auto simp: ReadFile_def split: list.splits bool.splits)
  moreover have "lookupFile w2 tbl n = lookupFile w tbl n"
    using assms(2) by (simp add: lookupFile_def tblDir_def)
  moreover have "True \<notin> set (tl (faults w2))"
    using assms(3) by (cases "faults w2") auto
  ultimately show ?thesis using assms(2,3)
    by (auto simp: ReadFile_def split: list.splits bool.splits)
qed

lemma loops_agree:
  assumes "nonTagsLoop tbl flds ids rec ix w = (Returns None, ix', w')"
    and "f \<in> set flds" "f \<noteq> ''tags''" and "ix f = Some b"
    and "root w2 = root w" "True \<notin> set (faults w2)"
  shows "\<exists>found w3 b'. scanLoop tbl f v ids rec acc w2 = (Returns (acc @ found, None), w3) \<and>
           ix' f = Some b' \<and> bucketIds b' v = bucketIds b v \<union> set found"
  using assms
proof (induction ids arbitrary: rec ix w w2 acc b)
  case Nil
  then show ?case by simp
next
  case (Cons i ids)
  from Cons.prems(1) obtain data w1 rec1 ix1 where
    rd: "ReadFile w tbl (fileName i) = (Inr data, w1)" and
    um: "Unmarshal data rec = (None, rec1)" and
    ixf: "indexFields flds rec1 i ix = (None, ix1)" and
    rest: "nonTagsLoop tbl flds ids rec1 ix1 w1 = (Returns None, ix', w')"
    by (auto split: prod.splits sum.splits option.splits)
  from ReadFile_same [OF rd Cons.prems(5,6)] obtain w3 where
    rd2: "ReadFile w2 tbl (fileName i) = (Inr data, w3)" and w3: "root w3 = root w1" "True \<notin> set (faults w3)"
    by blast
  from indexFields_strings [OF ixf Cons.prems(2,3)] obtain s where s: "rec1 f = Some (JString s)" by blast
  from indexFields_buckets [OF ixf Cons.prems(4)] Cons.prems(2,3) s obtain b1 where
    b1: "ix1 f = Some b1" "bucketIds b1 v = bucketIds b v \<union> (if v = s then {i} else {})"
    by auto
  let ?acc = "if s = v then acc @ [i] else acc"
  from Cons.IH [OF rest Cons.prems(2,3) b1(1) w3, of ?acc] obtain found w4 b' where
    ih: "scanLoop tbl f v ids rec1 ?acc w3 = (Returns (?acc @ found, None), w4)"
      "ix' f = Some b'" "bucketIds b' v = bucketIds b1 v \<union> set found"
    by blast
  have "scanLoop tbl f v (i # ids) rec acc w2 = (Returns (acc @ ((if s = v then [i] else []) @ found), None), w4)"
    using rd2 um s ih(1) by simp
  moreover have "bucketIds b' v = bucketIds b v \<union> set ((if s = v then [i] else []) @ found)"
    using ih(3) b1(2) by auto
  ultimately show ?case using ih(2) by blast
qed


lemma indexFields_absent: "indexFields flds rec i ix = (r, ix') \<Longrightarrow> ix f = None \<Longrightarrow> ix' f = None"
proof (induction flds arbitrary: ix)
  case Nil
  then show ?case by simp
next
  case (Cons g flds)
  from Cons.prems(1) consider
    (stop) "ix' = ix"
    | (store) bg' where "ix g \<noteq> None" "indexFields flds rec i (ix(g \<mapsto> bg')) = (r, ix')"
    | (skip) "indexFields flds rec i ix = (r, ix')"
    by (auto split: option.splits iface.splits if_splits)
  then show ?case
  proof cases
    case stop
    with Cons.prems(2) show ?thesis by simp
  next
    case store
    with Cons.prems(2) have "(ix(g \<mapsto> bg')) f = None" by auto
    with Cons.IH store(2) show ?thesis by blast
  next
    case skip
    with Cons.IH Cons.prems(2) show ?thesis by blast
  qed
qed

lemma nonTagsLoop_absent:
  "nonTagsLoop tbl flds ids rec ix w = (r, ix', w') \<Longrightarrow> ix f = None \<Longrightarrow> ix' f = None"
proof (induction ids arbitrary: rec ix w)
  case Nil
  then show ?case by simp
next
  case (Cons i ids)
  then show ?case
    by (auto split: prod.splits sum.splits option.splits dest: indexFields_absent)
qed

lemma initTagsIndex_fldIndexes: "initTagsIndex db w tbl = (r, db', w') \<Longrightarrow> fldIndexes db' = fldIndexes db"
  by (auto simp: initTagsIndex_def clearTags_def Let_def split: prod.splits outcome.splits option.splits)

lemma rebuilt_field_index:
  assumes cfg: "map_of (fieldsToIndex db) tbl = Some flds"
    and rb: "initTblIndexes db w tbl = (Returns None, db', w')"
  shows "\<exists>ix wa. nonTagsLoop tbl flds (fileIdsInDataDir w tbl) Map.empty (initFlds flds Map.empty) w
                    = (Returns None, ix, wa) \<and> fldIndexes db' tbl = Some ix \<and> root w' = root w"
proof -
  from rb cfg obtain db1 w1 where
    nt: "initNonTagsIndexes db w tbl = (Returns None, db1, w1)" and
    fi: "fldIndexes db' = fldIndexes db1"
    by (auto simp: initTblIndexes_def split: prod.splits outcome.splits option.splits if_splits
        dest: initTagsIndex_fldIndexes)
  from nt cfg obtain ix where
    "nonTagsLoop tbl flds (fileIdsInDataDir w tbl) Map.empty (initFlds flds Map.empty) w = (Returns None, ix, w1)"
    "fldIndexes db1 tbl = Some ix"
    by (auto simp: initNonTagsIndexes_def configFor_def split: prod.splits)
  with fi initTblIndexes_root [OF rb] show ?thesis by auto
qed

text \<open>
  Claim C2, as stated, at table states in which the last rebuild has failed. A rebuild
  that fails returns its error and leaves the field index as far as it got; the file
  written before it stays.

  \<^item> \<open>Create("posts", alice)\<close> on the table holding record \<open>1\<close> of \<open>alice\<close>, with the second
    read failing: \<open>Create\<close> returns the I/O error, the bucket of \<open>(author, alice)\<close> is
    \<open>1\<close>, which the fast path returns, and the scan of the same table, with no read
    failing any more, collects \<open>1\<close> and \<open>2\<close>.
  \<^item> \<open>Create("posts", "hello")\<close> on the same table: \<open>2.json\<close> holds a JSON string, the
    rebuild fails on decoding it, the fast path returns \<open>1\<close> and the scan the decoding
    error.
  \<^item> On the table whose rebuild has succeeded, a scan during which a read fails returns
    the I/O error, and the fast path \<open>1\<close>.
  \<^item> The configured field \<open>tags\<close> has no bucket in the field index, and the scan for it
    stops at the type assertion, the tags being an array.
\<close>

theorem stale_index_differs_from_scan:
  "fst (Create author_db1 (author_world1\<lparr>faults := [False, True]\<rparr>) ''posts'' alice)
     = Returns (''2'', Some IOFault) \<and>
   faults lagging_world = [] \<and>
   fst (FindAllIdsForField lagging_db lagging_world ''posts'' ''author'' ''alice'') = Returns ([''1''], None) \<and>
   fst (scanForField lagging_world ''posts'' ''author'' ''alice'') = Returns ([''1'', ''2''], None) \<and>
   fst (Create author_db1 author_world1 ''posts'' hello) = Returns (''2'', Some JsonType) \<and>
   fst (FindAllIdsForField stale_db stale_world ''posts'' ''author'' ''alice'') = Returns ([''1''], None) \<and>
   fst (scanForField stale_world ''posts'' ''author'' ''alice'') = Returns ([], Some JsonType) \<and>
   indexLookup author_db1 ''posts'' ''author'' ''alice'' = Some [''1''] \<and>
   fst (scanForField failing_world1 ''posts'' ''author'' ''alice'') = Returns ([], Some IOFault) \<and>
   indexLookup tags_db ''posts'' ''tags'' ''go'' = None \<and>
   fst (scanForField tags_world ''posts'' ''tags'' ''go'') = Panics TypeAssertion"
  by code_simp

text \<open>
  Claim C2, amended. Take a table with an index configuration whose rebuild has returned
  nil, as it does at the end of \<open>OpenDB\<close> and of every \<open>Create\<close>, \<open>Update\<close> and \<open>Delete\<close>
  that returns nil, and let no read fail afterwards. Then only the configured fields
  other than \<open>tags\<close> have buckets, and for each of them and every value the scanning loop
  of \<open>FindAllIdsForField\<close> returns, with a nil error, exactly the ids of the bucket that
  the fast path returns; where there is no bucket, the scan finds no id.
\<close>

theorem index_agrees_with_scan:
  assumes cfg: "map_of (fieldsToIndex db) tblName = Some fldNames"
    and rb: "initTblIndexes db w tblName = (Returns None, db', w')"
    and nf: "True \<notin> set (faults w')"
  shows "(indexLookup db' tblName searchField searchValue \<noteq> None \<longrightarrow>
            searchField \<in> set fldNames \<and> searchField \<noteq> ''tags'') \<and>
         (searchField \<in> set fldNames \<and> searchField \<noteq> ''tags'' \<longrightarrow>
            (\<exists>ids w''. scanForField w' tblName searchField searchValue = (Returns (ids, None), w'') \<and>
               set ids = (case indexLookup db' tblName searchField searchValue of
                            None \<Rightarrow> {} | Some fileIds \<Rightarrow> set fileIds)))"
proof -
  from rebuilt_field_index [OF cfg rb] obtain ix wa where
    lp: "nonTagsLoop tblName fldNames (fileIdsInDataDir w tblName) Map.empty (initFlds fldNames Map.empty) w
           = (Returns None, ix, wa)" and
    ix: "fldIndexes db' tblName = Some ix" and rt: "root w' = root w"
    by blast
  have a: "indexLookup db' tblName searchField searchValue \<noteq> None \<longrightarrow>
            searchField \<in> set fldNames \<and> searchField \<noteq> ''tags''"
  proof
    assume "indexLookup db' tblName searchField searchValue \<noteq> None"
    with ix have "ix searchField \<noteq> None" by (auto simp: indexLookup_def split: option.splits)
    with nonTagsLoop_absent [OF lp, of searchField]
    have "initFlds fldNames Map.empty searchField \<noteq> None" by blast
    then show "searchField \<in> set fldNames \<and> searchField \<noteq> ''tags''"
      by (simp add: initFlds_apply split: if_splits)
  qed
  have b: "searchField \<in> set fldNames \<and> searchField \<noteq> ''tags'' \<longrightarrow>
            (\<exists>ids w''. scanForField w' tblName searchField searchValue = (Returns (ids, None), w'') \<and>
               set ids = (case indexLookup db' tblName searchField searchValue of
                            None \<Rightarrow> {} | Some fileIds \<Rightarrow> set fileIds))"
  proof
    assume f: "searchField \<in> set fldNames \<and> searchField \<noteq> ''tags''"
    then have i0: "initFlds fldNames Map.empty searchField = Some Map.empty"
      by (simp add: initFlds_apply)
    from loops_agree [OF lp _ _ i0 rt nf, of searchValue "[]"] f obtain found w3 b' where
      sc: "scanLoop tblName searchField searchValue (fileIdsInDataDir w tblName) Map.empty [] w'
             = (Returns (found, None), w3)" and
      b': "ix searchField = Some b'" "bucketIds b' searchValue = bucketIds Map.empty searchValue \<union> set found"
      by auto
    from sc fileIds_root [OF rt] have
      "scanForField w' tblName searchField searchValue = (Returns (found, None), w3)"
      by (simp add: scanForField_def)
    moreover from b' ix have
      "set found = (case indexLookup db' tblName searchField searchValue of
                            None \<Rightarrow> {} | Some fileIds \<Rightarrow> set fileIds)"
      by (simp add: indexLookup_def bucketIds_def)
    ultimately show "\<exists>ids w''. scanForField w' tblName searchField searchValue = (Returns (ids, None), w'') \<and>
               set ids = (case indexLookup db' tblName searchField searchValue of
                            None \<Rightarrow> {} | Some fileIds \<Rightarrow> set fileIds)"
      by blast
  qed
  from a b show ?thesis by blast
qed

lemma Create_rebuilds:
  "Create db w tbl r = (Returns (fileId, None), db', w') \<Longrightarrow>
   \<exists>wa. initTblIndexes db wa tbl = (Returns None, db', w')"
  by (auto simp: Create_def split: if_splits prod.splits option.splits sum.splits outcome.splits)

theorem index_agrees_with_scan_witness:
  "map_of (fieldsToIndex author_db1) ''posts'' = Some [''author''] \<and>
   Create author_db1 author_world1 ''posts'' bob = (Returns (''2'', None), pair_db, pair_world) \<and>
   True \<notin> set (faults pair_world) \<and>
   indexLookup pair_db ''posts'' ''author'' ''bob'' = Some [''2''] \<and>
   scanForField pair_world ''posts'' ''author'' ''bob'' = (Returns ([''2''], None), pair_world) \<and>
   indexLookup pair_db ''posts'' ''author'' ''carol'' = None \<and>
   scanForField pair_world ''posts'' ''author'' ''carol'' = (Returns ([], None), pair_world)"
proof -
  have c: "map_of (fieldsToIndex author_db1) ''posts'' = Some [''author'']" by code_simp
  have nf: "True \<notin> set (faults pair_world)" by code_simp
  have l1: "indexLookup pair_db ''posts'' ''author'' ''bob'' = Some [''2'']" by code_simp
  have l2: "indexLookup pair_db ''posts'' ''author'' ''carol'' = None" by code_simp
  have s1: "scanForField pair_world ''posts'' ''author'' ''bob'' = (Returns ([''2''], None), pair_world)" by code_simp
  from Create_rebuilds [OF Create_bob] obtain wa where
    rb: "initTblIndexes author_db1 wa ''posts'' = (Returns None, pair_db, pair_world)" by blast
  from index_agrees_with_scan [OF c rb nf, of "''author''" "''carol''"] l2
  obtain ids w'' where "scanForField pair_world ''posts'' ''author'' ''carol'' = (Returns (ids, None), w'')"
    "set ids = {}" by auto
  moreover have "snd (scanForField pair_world ''posts'' ''author'' ''carol'') = pair_world" by code_simp
  ultimately have s2: "scanForField pair_world ''posts'' ''author'' ''carol'' = (Returns ([], None), pair_world)"
    by simp
  from c Create_bob nf l1 l2 s1 s2 show ?thesis by blast
qed

subsection \<open>FindAllIdsForTags\<close>

lemma countId_keys: "fst ` set (countId x m) = insert x (fst ` set m)"
proof (induction m)
  case Nil
  then show ?case by simp
next
  case (Cons p m)
  obtain k n where p: "p = (k, n)" by (cases p)
  show ?case
  proof (cases "k = x")
    case True
    with p show ?thesis by simp
  next
    case False
    with p Cons show ?thesis by (simp add: insert_commute)
  qed
qed

lemma countId_distinct: "distinct (map fst m) \<Longrightarrow> distinct (map fst (countId x m))"
proof (induction m)
  case Nil
  then show ?case by simp
next
  case (Cons p m)
  obtain k n where p: "p = (k, n)" by (cases p)
  with Cons countId_keys [of x m] show ?case by (cases "k = x") auto
qed

lemma countId_cnt: "cnt (countId y m) x = cnt m x + (if x = y then 1 else 0)"
  by (induction m) (auto simp: cnt_def)

lemma countIds_distinct: "distinct (map fst m) \<Longrightarrow> distinct (map fst (countIds ys m))"
  by (induction ys arbitrary: m) (auto simp: countId_distinct)

lemma countIds_cnt: "cnt (countIds ys m) x = cnt m x + count_list ys x"
  by (induction ys arbitrary: m) (auto simp: countId_cnt)

lemma countTags_distinct: "distinct (map fst m) \<Longrightarrow> distinct (map fst (countTags ti tags m))"
  by (induction tags arbitrary: m) (auto simp: countIds_distinct split: option.splits)

lemma countTags_cnt: "cnt (countTags ti tags m) x = cnt m x + hits ti tags x"
  by (induction tags arbitrary: m) (auto simp: countIds_cnt hits_def split: option.splits)

lemma kept_iff:
  assumes "distinct (map fst m)" "k \<noteq> 0"
  shows "x \<in> set (map fst (filter (\<lambda>p. snd p = k) m)) \<longleftrightarrow> cnt m x = k"
proof -
  have "x \<in> set (map fst (filter (\<lambda>p. snd p = k) m)) \<longleftrightarrow> (x, k) \<in> set m" by force
  also have "\<dots> \<longleftrightarrow> map_of m x = Some k" using assms(1) by simp
  also have "\<dots> \<longleftrightarrow> cnt m x = k" using assms(2) by (auto simp: cnt_def split: option.splits)
  finally show ?thesis .
qed

lemma sum_unit_terms:
  "(\<forall>t \<in> set ts. g t \<le> (1::nat)) \<Longrightarrow> sum_list (map g ts) \<le> length ts \<and>
     (sum_list (map g ts) = length ts \<longleftrightarrow> (\<forall>t \<in> set ts. g t = 1))"
proof (induction ts)
  case Nil
  then show ?case by simp
next
  case (Cons t ts)
  then have "g t \<le> 1" "sum_list (map g ts) \<le> length ts" by auto
  with Cons show ?case by auto
qed

lemma distinct_count: "distinct b \<Longrightarrow> count_list b x = (if x \<in> set b then 1 else 0)"
  by (induction b) auto

lemma hits_all:
  assumes "\<forall>t b. ti t = Some b \<longrightarrow> distinct b"
  shows "hits ti tags x = length tags \<longleftrightarrow> (\<forall>t \<in> set tags. \<exists>b. ti t = Some b \<and> x \<in> set b)"
proof -
  let ?g = "\<lambda>tag. case ti tag of None \<Rightarrow> 0 | Some fileIds \<Rightarrow> count_list fileIds x"
  have g: "\<And>t. ?g t = (if \<exists>b. ti t = Some b \<and> x \<in> set b then 1 else 0)"
    using assms by (auto simp: distinct_count split: option.splits)
  then have "\<forall>t \<in> set tags. ?g t \<le> 1" by simp
  from sum_unit_terms [OF this] have "hits ti tags x = length tags \<longleftrightarrow> (\<forall>t \<in> set tags. ?g t = 1)"
    by (simp add: hits_def)
  also have "\<dots> \<longleftrightarrow> (\<forall>t \<in> set tags. \<exists>b. ti t = Some b \<and> x \<in> set b)"
    using g by (metis zero_neq_one)
  finally show ?thesis .
qed

lemma store_apply:
  "store kvs m k = (case map_of (rev kvs) k of Some v \<Rightarrow> Some v | None \<Rightarrow> m k)"
proof (induction kvs arbitrary: m)
  case Nil
  then show ?case by simp
next
  case (Cons p kvs)
  obtain a b where p: "p = (a, b)" by (cases p)
  have "store (p # kvs) m k = store kvs (m(a \<mapsto> b)) k" using p by simp
  also have "\<dots> = (case map_of (rev kvs) k of Some v \<Rightarrow> Some v | None \<Rightarrow> (m(a \<mapsto> b)) k)"
    by (rule Cons)
  also have "\<dots> = (case map_of (rev (p # kvs)) k of Some v \<Rightarrow> Some v | None \<Rightarrow> m k)"
    using p by (simp add: map_add_def split: option.splits)
  finally show ?case .
qed

lemma ownTags_decoded:
  assumes "ownTags w tbl i = Some ts" "lookupFile w tbl (fileName i) = Inr data"
  shows "\<exists>rec1. Unmarshal data rec = (None, rec1) \<and> rec1 ''tags'' = Some (JArray ts)"
proof -
  from assms obtain kvs where d: "data = Doc (JObject kvs)"
    by (cases data; cases "case data of Doc v \<Rightarrow> v"; simp add: ownTags_def)
  with assms have "map_of (rev kvs) ''tags'' = Some (JArray ts)"
    by (simp add: ownTags_def split: option.splits iface.splits)
  with d show ?thesis by (simp add: store_apply)
qed

lemma ownTags_root: "root w' = root w \<Longrightarrow> ownTags w' tbl i = ownTags w tbl i"
  by (simp add: ownTags_def lookupFile_def tblDir_def)

lemma ReadFile_lookup: "ReadFile w tbl n = (Inr data, w1) \<Longrightarrow> lookupFile w tbl n = Inr data \<and> root w1 = root w"
  by (auto simp: ReadFile_def split: list.splits bool.splits)

lemma addTags_buckets:
  "addTags ts i ti = (None, ti') \<Longrightarrow>
   (\<forall>tag. bucketIds ti' tag = bucketIds ti tag \<union> (if JString tag \<in> set ts then {i} else {})) \<and>
   ((\<forall>t b. ti t = Some b \<longrightarrow> distinct b) \<longrightarrow> (\<forall>t b. ti' t = Some b \<longrightarrow> distinct b))"
proof (induction ts arbitrary: ti)
  case Nil
  then show ?case by simp
next
  case (Cons t ts)
  from Cons.prems obtain tag where t: "t = JString tag" by (auto split: iface.splits)
  define ti1 where "ti1 = (case ti tag of None \<Rightarrow> ti(tag \<mapsto> [i])
                            | Some fileIds \<Rightarrow> if i \<in> set fileIds then ti else ti(tag \<mapsto> fileIds @ [i]))"
  have step: "addTags ts i ti1 = (None, ti')"
    using Cons.prems t by (auto simp: ti1_def stringInSlice_iff split: option.splits)
  have b1: "\<And>x. bucketIds ti1 x = bucketIds ti x \<union> (if x = tag then {i} else {})"
    by (auto simp: ti1_def bucketIds_def split: option.splits)
  have d1: "(\<forall>t b. ti t = Some b \<longrightarrow> distinct b) \<longrightarrow> (\<forall>t b. ti1 t = Some b \<longrightarrow> distinct b)"
    by (auto simp: ti1_def split: option.splits if_splits)
  from Cons.IH [OF step] have
    ih1: "\<forall>x. bucketIds ti' x = bucketIds ti1 x \<union> (if JString x \<in> set ts then {i} else {})" and
    ih2: "(\<forall>t b. ti1 t = Some b \<longrightarrow> distinct b) \<longrightarrow> (\<forall>t b. ti' t = Some b \<longrightarrow> distinct b)"
    by blast+
  have c1: "\<forall>x. bucketIds ti' x = bucketIds ti x \<union> (if JString x \<in> set (t # ts) then {i} else {})"
  proof
    fix x
    from ih1 have "bucketIds ti' x = bucketIds ti1 x \<union> (if JString x \<in> set ts then {i} else {})" ..
    with b1 [of x] t show "bucketIds ti' x = bucketIds ti x \<union> (if JString x \<in> set (t # ts) then {i} else {})"
      by (cases "x = tag"; cases "JString x \<in> set ts"; simp)
  qed
  from ih2 d1 have c2: "(\<forall>t b. ti t = Some b \<longrightarrow> distinct b) \<longrightarrow> (\<forall>t b. ti' t = Some b \<longrightarrow> distinct b)"
    by blast
  from c1 c2 show ?case by (rule conjI)
qed

lemma tagsLoop_buckets:
  assumes "tagsLoop tbl ids rec ti w = (Returns None, ti', w')"
    and "\<forall>i \<in> set ids. ownTags w tbl i \<noteq> None"
  shows "(\<forall>tag. bucketIds ti' tag =
            bucketIds ti tag \<union> {i \<in> set ids. \<exists>ts. ownTags w tbl i = Some ts \<and> JString tag \<in> set ts}) \<and>
         ((\<forall>t b. ti t = Some b \<longrightarrow> distinct b) \<longrightarrow> (\<forall>t b. ti' t = Some b \<longrightarrow> distinct b))"
  using assms
proof (induction ids arbitrary: rec ti w)
  case Nil
  then show ?case by simp
next
  case (Cons i ids)
  from Cons.prems(2) obtain ts where ts: "ownTags w tbl i = Some ts" by auto
  from Cons.prems(1) obtain data w1 where rd: "ReadFile w tbl (fileName i) = (Inr data, w1)"
    by (auto split: prod.splits sum.splits)
  from ReadFile_lookup [OF rd] have lk: "lookupFile w tbl (fileName i) = Inr data" and rt: "root w1 = root w"
    by auto
  from ownTags_decoded [OF ts lk, of rec] obtain rec1 where
    um: "Unmarshal data rec = (None, rec1)" "rec1 ''tags'' = Some (JArray ts)" by blast
  from Cons.prems(1) rd um obtain ti1 where
    at: "addTags ts i ti = (None, ti1)" and rest: "tagsLoop tbl ids rec1 ti1 w1 = (Returns None, ti', w')"
    by (auto split: prod.splits option.splits)
  have own1: "\<forall>j \<in> set ids. ownTags w1 tbl j \<noteq> None"
    using Cons.prems(2) ownTags_root [OF rt] by simp
  from Cons.IH [OF rest own1] ownTags_root [OF rt] have
    ih: "\<forall>tag. bucketIds ti' tag =
            bucketIds ti1 tag \<union> {j \<in> set ids. \<exists>ts. ownTags w tbl j = Some ts \<and> JString tag \<in> set ts}"
      "(\<forall>t b. ti1 t = Some b \<longrightarrow> distinct b) \<longrightarrow> (\<forall>t b. ti' t = Some b \<longrightarrow> distinct b)"
    by auto
  from addTags_buckets [OF at] have
    a: "\<forall>tag. bucketIds ti1 tag = bucketIds ti tag \<union> (if JString tag \<in> set ts then {i} else {})"
      "(\<forall>t b. ti t = Some b \<longrightarrow> distinct b) \<longrightarrow> (\<forall>t b. ti1 t = Some b \<longrightarrow> distinct b)"
    by auto
  have "\<forall>tag. bucketIds ti' tag =
            bucketIds ti tag \<union> {j \<in> set (i # ids). \<exists>ts. ownTags w tbl j = Some ts \<and> JString tag \<in> set ts}"
    using ih(1) a(1) ts by auto
  with ih(2) a(2) show ?case by blast
qed


lemma ReadFile_faults: "ReadFile w t n = (r, w1) \<Longrightarrow> True \<notin> set (faults w) \<Longrightarrow> True \<notin> set (faults w1)"
  by (cases "faults w") (auto simp: ReadFile_def split: list.splits bool.splits)

lemma nonTagsLoop_faults:
  "nonTagsLoop t flds ids rec ix w = (r, ix', w') \<Longrightarrow> True \<notin> set (faults w) \<Longrightarrow> True \<notin> set (faults w')"
proof (induction ids arbitrary: rec ix w)
  case Nil
  then show ?case by simp
next
  case (Cons i ids)
  obtain rd w1 where rd: "ReadFile w t (fileName i) = (rd, w1)" by (cases "ReadFile w t (fileName i)")
  from ReadFile_faults [OF rd Cons.prems(2)] have f1: "True \<notin> set (faults w1)" .
  from Cons.prems(1) rd consider (stop) "w' = w1"
    | (go) rec1 ix1 where "nonTagsLoop t flds ids rec1 ix1 w1 = (r, ix', w')"
    by (auto split: sum.splits prod.splits option.splits)
  then show ?case
  proof cases
    case stop
    with f1 show ?thesis by simp
  next
    case go
    from Cons.IH [OF go f1] show ?thesis .
  qed
qed

lemma tagsLoop_no_error:
  assumes "nonTagsLoop tbl flds ids rec ix w = (Returns None, ix', w')"
    and "root w2 = root w" "True \<notin> set (faults w2)"
  shows "fst (tagsLoop tbl ids rec ti w2) \<noteq> Returns (Some e)"
  using assms
proof (induction ids arbitrary: rec ix w w2 ti)
  case Nil
  then show ?case by simp
next
  case (Cons i ids)
  from Cons.prems(1) obtain data w1 rec1 ix1 where
    rd: "ReadFile w tbl (fileName i) = (Inr data, w1)" and
    um: "Unmarshal data rec = (None, rec1)" and
    rest: "nonTagsLoop tbl flds ids rec1 ix1 w1 = (Returns None, ix', w')"
    by (auto split: prod.splits sum.splits option.splits)
  from ReadFile_same [OF rd Cons.prems(2,3)] obtain w3 where
    rd2: "ReadFile w2 tbl (fileName i) = (Inr data, w3)" and w3: "root w3 = root w1" "True \<notin> set (faults w3)"
    by blast
  note ih = Cons.IH [OF rest w3]
  show ?case
  proof (cases "rec1 ''tags''")
    case None
    with rd2 um show ?thesis by simp
  next
    case (Some v)
    show ?thesis
    proof (cases v)
      case (JArray tags)
      obtain p ti1 where at: "addTags tags i ti = (p, ti1)" by (cases "addTags tags i ti")
      show ?thesis
      proof (cases p)
        case None
        with rd2 um Some JArray at ih [of ti1] show ?thesis by simp
      next
        case (Some q)
        with rd2 um \<open>rec1 ''tags'' = Some v\<close> JArray at show ?thesis by simp
      qed
    qed (use rd2 um Some in simp_all)
  qed
qed

lemma rebuilt_tag_index:
  assumes cfg: "map_of (fieldsToIndex db0) tbl = Some flds" and tg: "''tags'' \<in> set flds"
    and rb: "initTblIndexes db0 w tbl = (Returns None, db, w')"
    and nf: "True \<notin> set (faults w)"
  shows "\<exists>ti w1 w2. tagsLoop tbl (fileIdsInDataDir w tbl) Map.empty Map.empty w1 = (Returns None, ti, w2) \<and>
           root w1 = root w \<and> tagIndexes db tbl = Some ti \<and> rwLocks db = rwLocks db0"
proof -
  from rb cfg tg obtain db1 w1 x where
    nt: "initNonTagsIndexes db0 w tbl = (Returns None, db1, w1)" and
    it: "initTagsIndex db1 w1 tbl = (Returns x, db, w')"
    by (auto simp: initTblIndexes_def stringInSlice_iff split: prod.splits outcome.splits option.splits)
  from nt have l1: "rwLocks db1 = rwLocks db0"
    by (auto simp: initNonTagsIndexes_def split: prod.splits)
  from nt obtain ix where
    lp: "nonTagsLoop tbl (configFor db0 tbl) (fileIdsInDataDir w tbl) Map.empty
           (initFlds (configFor db0 tbl) Map.empty) w = (Returns None, ix, w1)"
    by (auto simp: initNonTagsIndexes_def split: prod.splits)
  from nonTagsLoop_root [OF lp] have rt: "root w1 = root w" .
  from nonTagsLoop_faults [OF lp nf] have nf1: "True \<notin> set (faults w1)" .
  have ids: "fileIdsInDataDir w1 tbl = fileIdsInDataDir w tbl" using rt by (rule fileIds_root)
  obtain r ti w2 where tl: "tagsLoop tbl (fileIdsInDataDir w tbl) Map.empty Map.empty w1 = (r, ti, w2)"
    by (cases "tagsLoop tbl (fileIdsInDataDir w tbl) Map.empty Map.empty w1")
  from tagsLoop_no_error [OF lp rt nf1, of Map.empty] tl have ne: "\<And>e. r \<noteq> Returns (Some e)" by auto
  from it tl ids have "r = Returns None \<and> tagIndexes db tbl = Some ti \<and> rwLocks db = rwLocks db1"
    using ne
    by (cases r; cases "case r of Returns y \<Rightarrow> y")
       (auto simp: initTagsIndex_def Let_def clearTags_def split: option.splits)
  with tl rt l1 show ?thesis by auto
qed

text \<open>
  A record file without a \<open>tags\<close> attribute is indexed under the tags of the record
  read before it, \<open>rec\<close> being shared by the iterations of the tag pass as it is by those
  of the field pass: a query for \<open>go\<close> returns record \<open>2\<close>, which has no tags. This is the
  behaviour of the rebuild that the properties of the indexes are about; the statement
  on \<open>FindAllIdsForTags\<close> below is made for record files that hold their own tags.
\<close>

lemma untagged_record_inherits_tags:
  "fst (Create tags_db tags_world ''posts'' titled) = Returns (''2'', None) \<and>
   ownTags tags_world2 ''posts'' ''2'' = None \<and>
   FindAllIdsForTags tags_db2 ''posts'' [''go''] = Returns ([''1'', ''2''], None)"
  by code_simp

text \<open>
  Claim C3, as stated, where \<open>FindAllIdsForTags\<close> does not return the records that have
  the requested tags. The method answers from the tag index alone.

  \<^item> \<open>initTblIndexes\<close> builds a tag index only for a table whose index configuration
    lists \<open>tags\<close>. In the table \<open>posts\<close> without configuration, record \<open>1\<close> is created with
    the tag \<open>go\<close>, and the query for \<open>go\<close> returns no id.
  \<^item> A rebuild that fails in the field pass returns its error and leaves the tag index
    as it was. \<open>Update\<close> gives record \<open>1\<close> the one tag \<open>db\<close> while the first read fails: it
    returns the I/O error, and afterwards the query for \<open>go\<close> returns \<open>1\<close> and the query
    for \<open>db\<close> no id.
  \<^item> For a table name without a lock the method panics on the nil lock.
  \<^item> The count of an id is compared with the length of the request, not with the
    number of distinct tags: for the tags \<open>go, go\<close> the counter of \<open>1\<close> is 2, the request
    has one distinct tag, and \<open>1\<close> is kept.
\<close>

theorem FindAllIdsForTags_answers_from_tag_index:
  "fst (Create ex_db ex_world ''posts'' rec_go) = Returns (''1'', None) \<and>
   ownTags plain_world1 ''posts'' ''1'' = Some [JString ''go''] \<and>
   FindAllIdsForTags plain_db1 ''posts'' [''go''] = Returns ([], None) \<and>
   fst (Update tags_db (tags_world\<lparr>faults := [True]\<rparr>) ''posts'' tagged_db ''1'') = Returns (Some IOFault) \<and>
   ownTags retagged_world ''posts'' ''1'' = Some [JString ''db''] \<and>
   FindAllIdsForTags retagged_db ''posts'' [''go''] = Returns ([''1''], None) \<and>
   FindAllIdsForTags retagged_db ''posts'' [''db''] = Returns ([], None) \<and>
   FindAllIdsForTags ex_db ''ghost'' [''go''] = Panics NilDereference \<and>
   FindAllIdsForTags tags_db ''posts'' [''go'', ''go''] = Returns ([''1''], None) \<and>
   countTags (tagIndexOf tags_db ''posts'') [''go'', ''go''] [] = [(''1'', 2)] \<and>
   length (remdups [''go'', ''go'']) = 1"
  by code_simp

text \<open>
  Claim C3, amended. Take a table that has a lock. For the empty list of tags
  \<open>FindAllIdsForTags\<close> returns no id. For a list that is not empty it walks through the
  bucket of every element of the list that the tag index holds, counts each id it
  meets, and returns the ids whose count equals the length of the list; the buckets
  being free of duplicates, these are the ids that the index lists under every
  requested tag. And for a table configured with \<open>tags\<close> whose rebuild has returned nil
  with no read failing, and whose record files each hold their own \<open>tags\<close> array, these
  are exactly the ids of the records whose own tags include every requested tag.
\<close>

theorem FindAllIdsForTags_all_tags:
  "(tblName \<in> rwLocks db \<longrightarrow> FindAllIdsForTags db tblName [] = Returns ([], None)) \<and>
   (tblName \<in> rwLocks db \<and> searchTags \<noteq> [] \<longrightarrow>
      (\<exists>ids. FindAllIdsForTags db tblName searchTags = Returns (ids, None) \<and>
         set ids = {x. hits (tagIndexOf db tblName) searchTags x = length searchTags} \<and>
         ((\<forall>t b. tagIndexOf db tblName t = Some b \<longrightarrow> distinct b) \<longrightarrow>
            set ids = {x. \<forall>t \<in> set searchTags. x \<in> bucketIds (tagIndexOf db tblName) t}))) \<and>
   (tblName \<in> rwLocks db \<and> searchTags \<noteq> [] \<and>
    map_of (fieldsToIndex db0) tblName = Some fldNames \<and> ''tags'' \<in> set fldNames \<and>
    initTblIndexes db0 w tblName = (Returns None, db, w') \<and> True \<notin> set (faults w) \<and>
    (\<forall>i \<in> set (fileIdsInDataDir w tblName). ownTags w tblName i \<noteq> None) \<longrightarrow>
      (\<exists>ids. FindAllIdsForTags db tblName searchTags = Returns (ids, None) \<and>
         set ids = {i \<in> set (fileIdsInDataDir w tblName).
                      \<exists>ts. ownTags w tblName i = Some ts \<and> (\<forall>t \<in> set searchTags. JString t \<in> set ts)}))"
proof -
  let ?ti = "tagIndexOf db tblName"
  let ?m = "countTags ?ti searchTags []"
  let ?ids = "map fst (filter (\<lambda>p. snd p = length searchTags) ?m)"
  have empty: "tblName \<in> rwLocks db \<longrightarrow> FindAllIdsForTags db tblName [] = Returns ([], None)"
    by (simp add: FindAllIdsForTags_def)
  have r: "tblName \<in> rwLocks db \<and> searchTags \<noteq> [] \<Longrightarrow>
           FindAllIdsForTags db tblName searchTags = Returns (?ids, None)"
    by (simp add: FindAllIdsForTags_def)
  have d: "distinct (map fst ?m)" by (simp add: countTags_distinct)
  have c: "\<And>x. cnt ?m x = hits ?ti searchTags x"
    using countTags_cnt [of ?ti searchTags "[]"] by (simp add: cnt_def)
  have s: "searchTags \<noteq> [] \<Longrightarrow> set ?ids = {x. hits ?ti searchTags x = length searchTags}"
    using kept_iff [OF d, of "length searchTags"] c by auto
  have s2: "searchTags \<noteq> [] \<Longrightarrow> (\<forall>t b. ?ti t = Some b \<longrightarrow> distinct b) \<Longrightarrow>
            set ?ids = {x. \<forall>t \<in> set searchTags. x \<in> bucketIds ?ti t}"
  proof -
    assume ne: "searchTags \<noteq> []" and dd: "\<forall>t b. ?ti t = Some b \<longrightarrow> distinct b"
    have "\<And>x t. (\<exists>b. ?ti t = Some b \<and> x \<in> set b) = (x \<in> bucketIds ?ti t)"
      by (auto simp: bucketIds_def split: option.splits)
    with s [OF ne] hits_all [OF dd, of searchTags] show ?thesis by simp
  qed
  have index: "tblName \<in> rwLocks db \<and> searchTags \<noteq> [] \<longrightarrow>
      (\<exists>ids. FindAllIdsForTags db tblName searchTags = Returns (ids, None) \<and>
         set ids = {x. hits ?ti searchTags x = length searchTags} \<and>
         ((\<forall>t b. ?ti t = Some b \<longrightarrow> distinct b) \<longrightarrow>
            set ids = {x. \<forall>t \<in> set searchTags. x \<in> bucketIds ?ti t}))"
    using r s s2 by blast
  have records: "tblName \<in> rwLocks db \<and> searchTags \<noteq> [] \<and>
    map_of (fieldsToIndex db0) tblName = Some fldNames \<and> ''tags'' \<in> set fldNames \<and>
    initTblIndexes db0 w tblName = (Returns None, db, w') \<and> True \<notin> set (faults w) \<and>
    (\<forall>i \<in> set (fileIdsInDataDir w tblName). ownTags w tblName i \<noteq> None) \<longrightarrow>
      (\<exists>ids. FindAllIdsForTags db tblName searchTags = Returns (ids, None) \<and>
         set ids = {i \<in> set (fileIdsInDataDir w tblName).
                      \<exists>ts. ownTags w tblName i = Some ts \<and> (\<forall>t \<in> set searchTags. JString t \<in> set ts)})"
  proof
    assume a: "tblName \<in> rwLocks db \<and> searchTags \<noteq> [] \<and>
      map_of (fieldsToIndex db0) tblName = Some fldNames \<and> ''tags'' \<in> set fldNames \<and>
      initTblIndexes db0 w tblName = (Returns None, db, w') \<and> True \<notin> set (faults w) \<and>
      (\<forall>i \<in> set (fileIdsInDataDir w tblName). ownTags w tblName i \<noteq> None)"
    then have ne: "searchTags \<noteq> []" by simp
    from a rebuilt_tag_index [of db0 tblName fldNames w db w'] obtain ti w1 w2 where
      tl: "tagsLoop tblName (fileIdsInDataDir w tblName) Map.empty Map.empty w1 = (Returns None, ti, w2)" and
      rt: "root w1 = root w" and ti: "tagIndexes db tblName = Some ti"
      by blast
    from a ownTags_root [OF rt] have own: "\<forall>i \<in> set (fileIdsInDataDir w tblName). ownTags w1 tblName i \<noteq> None"
      by simp
    from tagsLoop_buckets [OF tl own] ownTags_root [OF rt] have
      bk: "\<forall>tag. bucketIds ti tag =
             {i \<in> set (fileIdsInDataDir w tblName). \<exists>ts. ownTags w tblName i = Some ts \<and> JString tag \<in> set ts}"
      and dd: "\<forall>t b. ti t = Some b \<longrightarrow> distinct b"
      by (auto simp: bucketIds_def)
    from ti have tio: "?ti = ti" by (simp add: tagIndexOf_def)
    from ne obtain t0 where t0: "t0 \<in> set searchTags" by (cases searchTags) auto
    have "{x. \<forall>t \<in> set searchTags. x \<in> bucketIds ti t} =
          {i \<in> set (fileIdsInDataDir w tblName).
             \<exists>ts. ownTags w tblName i = Some ts \<and> (\<forall>t \<in> set searchTags. JString t \<in> set ts)}"
    proof (intro set_eqI iffI)
      fix x assume "x \<in> {x. \<forall>t \<in> set searchTags. x \<in> bucketIds ti t}"
      then have all: "\<forall>t \<in> set searchTags. x \<in> bucketIds ti t" by simp
      with t0 bk obtain ts where x: "x \<in> set (fileIdsInDataDir w tblName)" "ownTags w tblName x = Some ts"
        by auto
      with all bk have "\<forall>t \<in> set searchTags. JString t \<in> set ts" by auto
      with x show "x \<in> {i \<in> set (fileIdsInDataDir w tblName).
             \<exists>ts. ownTags w tblName i = Some ts \<and> (\<forall>t \<in> set searchTags. JString t \<in> set ts)}"
        by simp
    next
      fix x assume "x \<in> {i \<in> set (fileIdsInDataDir w tblName).
             \<exists>ts. ownTags w tblName i = Some ts \<and> (\<forall>t \<in> set searchTags. JString t \<in> set ts)}"
      with bk show "x \<in> {x. \<forall>t \<in> set searchTags. x \<in> bucketIds ti t}" by auto
    qed
    with s2 [OF ne] dd tio r a
    show "\<exists>ids. FindAllIdsForTags db tblName searchTags = Returns (ids, None) \<and>
         set ids = {i \<in> set (fileIdsInDataDir w tblName).
                      \<exists>ts. ownTags w tblName i = Some ts \<and> (\<forall>t \<in> set searchTags. JString t \<in> set ts)}"
      by auto
  qed
  from empty index records show ?thesis by blast
qed

lemma OpenDB_tagged_db0: "OpenDB ex_world tags_cfg = (Returns (Some tagged_db0, None), ex_world)"
  by (simp add: OpenDB_def ex_world_def tagged_db0_def tags_cfg_def initTblIndexes_def
      initNonTagsIndexes_def initTagsIndex_def clearTags_def configFor_def fileIdsInDataDir_def
      ReadDir_def)

lemma WriteFile_faults: "WriteFile w tbl n data = (r, wa) \<Longrightarrow> faults wa = faults w"
  by (auto simp: WriteFile_def split: option.splits node.splits)

lemma Create_rebuilds_from:
  assumes "Create db w tbl r = (Returns (fileId, None), db', w')"
  shows "\<exists>wa. initTblIndexes db wa tbl = (Returns None, db', w') \<and> root wa = root w' \<and> faults wa = faults w"
proof -
  from assms obtain data wa where
    wr: "WriteFile w tbl (fileName fileId) data = (None, wa)" and
    rb: "initTblIndexes db wa tbl = (Returns None, db', w')"
    by (auto simp: Create_def split: if_splits prod.splits option.splits sum.splits outcome.splits)
  from initTblIndexes_root [OF rb] WriteFile_faults [OF wr] rb show ?thesis by auto
qed

lemma Create_third:
  "Create tagged_db2 tagged_world2 ''posts'' rec_bc = (Returns (''3'', None), tagged_db3, tagged_world3)"
proof -
  have "fst (Create tagged_db2 tagged_world2 ''posts'' rec_bc) = Returns (''3'', None)" by code_simp
  then show ?thesis by (simp add: tagged_db3_def tagged_world3_def prod_eq_iff)
qed

theorem FindAllIdsForTags_all_tags_witness:
  "Create tagged_db2 tagged_world2 ''posts'' rec_bc = (Returns (''3'', None), tagged_db3, tagged_world3) \<and>
   fileIdsInDataDir tagged_world3 ''posts'' = [''1'', ''2'', ''3''] \<and>
   ownTags tagged_world3 ''posts'' ''1'' = Some [JString ''a'', JString ''b''] \<and>
   ownTags tagged_world3 ''posts'' ''2'' = Some [JString ''a''] \<and>
   ownTags tagged_world3 ''posts'' ''3'' = Some [JString ''b'', JString ''c''] \<and>
   FindAllIdsForTags tagged_db3 ''posts'' [''a'', ''b''] = Returns ([''1''], None) \<and>
   FindAllIdsForTags tagged_db3 ''posts'' [''a''] = Returns ([''1'', ''2''], None) \<and>
   FindAllIdsForTags tagged_db3 ''posts'' [] = Returns ([], None) \<and>
   {i \<in> set (fileIdsInDataDir tagged_world3 ''posts'').
      \<exists>ts. ownTags tagged_world3 ''posts'' i = Some ts \<and> (\<forall>t \<in> set [''a'', ''b'']. JString t \<in> set ts)} = {''1''}"
proof -
  have ids: "fileIdsInDataDir tagged_world3 ''posts'' = [''1'', ''2'', ''3'']" by code_simp
  have o1: "ownTags tagged_world3 ''posts'' ''1'' = Some [JString ''a'', JString ''b'']" by code_simp
  have o2: "ownTags tagged_world3 ''posts'' ''2'' = Some [JString ''a'']" by code_simp
  have o3: "ownTags tagged_world3 ''posts'' ''3'' = Some [JString ''b'', JString ''c'']" by code_simp
  have f1: "FindAllIdsForTags tagged_db3 ''posts'' [''a'', ''b''] = Returns ([''1''], None)" by code_simp
  have f2: "FindAllIdsForTags tagged_db3 ''posts'' [''a''] = Returns ([''1'', ''2''], None)" by code_simp
  have lk: "''posts'' \<in> rwLocks tagged_db3" by code_simp
  have cf: "map_of (fieldsToIndex tagged_db2) ''posts'' = Some [''tags'']" by code_simp
  have fl: "faults tagged_world2 = []" by code_simp
  from Create_rebuilds_from [OF Create_third] fl obtain wa where
    rb: "initTblIndexes tagged_db2 wa ''posts'' = (Returns None, tagged_db3, tagged_world3)" and
    rt: "root wa = root tagged_world3" and nf: "True \<notin> set (faults wa)"
    by auto
  have idw: "fileIdsInDataDir wa ''posts'' = fileIdsInDataDir tagged_world3 ''posts''"
    using rt by (rule fileIds_root)
  have ow: "\<And>i. ownTags wa ''posts'' i = ownTags tagged_world3 ''posts'' i"
    using rt by (rule ownTags_root)
  have own: "\<forall>i \<in> set (fileIdsInDataDir wa ''posts''). ownTags wa ''posts'' i \<noteq> None"
    by (simp add: idw ow ids o1 o2 o3)
  note t = FindAllIdsForTags_all_tags [where tblName = "''posts''" and db = tagged_db3 and ?db0.0 = tagged_db2
      and fldNames = "[''tags'']" and w = wa and w' = tagged_world3]
  from t [of "[''a'', ''b'']"] lk cf rb nf own
  obtain res where "FindAllIdsForTags tagged_db3 ''posts'' [''a'', ''b''] = Returns (res, None)"
    "set res = {i \<in> set (fileIdsInDataDir wa ''posts'').
      \<exists>ts. ownTags wa ''posts'' i = Some ts \<and> (\<forall>t \<in> set [''a'', ''b'']. JString t \<in> set ts)}"
    by auto
  with f1 idw ow have
    s: "{i \<in> set (fileIdsInDataDir tagged_world3 ''posts'').
      \<exists>ts. ownTags tagged_world3 ''posts'' i = Some ts \<and> (\<forall>t \<in> set [''a'', ''b'']. JString t \<in> set ts)} = {''1''}"
    by simp
  from t [of "[]"] lk have f0: "FindAllIdsForTags tagged_db3 ''posts'' [] = Returns ([], None)" by blast
  from Create_third ids o1 o2 o3 f1 f2 f0 s show ?thesis by blast
qed

subsection \<open>Deletion\<close>

lemma indexFields_listed:
  "indexFields flds rec i ix = (r, ix') \<Longrightarrow> listed ix' f v \<subseteq> listed ix f v \<union> {i}"
proof (induction flds arbitrary: ix)
  case Nil
  then show ?case by auto
next
  case (Cons g flds)
  from Cons.prems consider
    (stop) "ix' = ix"
    | (new) bg s where "ix g = Some bg" "bg s = None" "indexFields flds rec i (ix(g \<mapsto> bg(s \<mapsto> [i]))) = (r, ix')"
    | (app) bg s l where "ix g = Some bg" "bg s = Some l"
        "indexFields flds rec i (ix(g \<mapsto> bg(s \<mapsto> l @ [i]))) = (r, ix')"
    | (skip) "indexFields flds rec i ix = (r, ix')"
    by (auto split: option.splits iface.splits if_splits)
  then show ?case
  proof cases
    case stop
    then show ?thesis by auto
  next
    case new
    have "listed (ix(g \<mapsto> bg(s \<mapsto> [i]))) f v \<subseteq> listed ix f v \<union> {i}"
      using new(1,2) by (auto simp: listed_def bucketIds_def split: option.splits if_splits)
    with Cons.IH [OF new(3)] show ?thesis by blast
  next
    case app
    have "listed (ix(g \<mapsto> bg(s \<mapsto> l @ [i]))) f v \<subseteq> listed ix f v \<union> {i}"
      using app(1,2) by (auto simp: listed_def bucketIds_def split: option.splits if_splits)
    with Cons.IH [OF app(3)] show ?thesis by blast
  next
    case skip
    from Cons.IH [OF skip] show ?thesis .
  qed
qed

lemma nonTagsLoop_listed:
  "nonTagsLoop tbl flds ids rec ix w = (r, ix', w') \<Longrightarrow> listed ix' f v \<subseteq> listed ix f v \<union> set ids"
proof (induction ids arbitrary: rec ix w)
  case Nil
  then show ?case by auto
next
  case (Cons i ids)
  from Cons.prems consider
    (stop) "ix' = ix"
    | (panic) rec1 p where "indexFields flds rec1 i ix = (Some p, ix')"
    | (go) rec1 ix1 w1 where "indexFields flds rec1 i ix = (None, ix1)"
        "nonTagsLoop tbl flds ids rec1 ix1 w1 = (r, ix', w')"
    by (auto split: prod.splits sum.splits option.splits)
  then show ?case
  proof cases
    case stop
    then show ?thesis by auto
  next
    case panic
    from indexFields_listed [OF this] show ?thesis by auto
  next
    case go
    from indexFields_listed [OF go(1)] Cons.IH [OF go(2)] show ?thesis by auto
  qed
qed

lemma addTags_listed:
  "addTags ts i ti = (r, ti') \<Longrightarrow> bucketIds ti' t \<subseteq> bucketIds ti t \<union> {i}"
proof (induction ts arbitrary: ti)
  case Nil
  then show ?case by auto
next
  case (Cons x ts)
  from Cons.prems consider
    (stop) "ti' = ti"
    | (new) tag where "ti tag = None" "addTags ts i (ti(tag \<mapsto> [i])) = (r, ti')"
    | (app) tag l where "ti tag = Some l" "addTags ts i (ti(tag \<mapsto> l @ [i])) = (r, ti')"
    | (skip) "addTags ts i ti = (r, ti')"
    by (auto split: option.splits iface.splits if_splits)
  then show ?case
  proof cases
    case stop
    then show ?thesis by auto
  next
    case new
    have "bucketIds (ti(tag \<mapsto> [i])) t \<subseteq> bucketIds ti t \<union> {i}"
      using new(1) by (auto simp: bucketIds_def split: option.splits if_splits)
    with Cons.IH [OF new(2)] show ?thesis by blast
  next
    case app
    have "bucketIds (ti(tag \<mapsto> l @ [i])) t \<subseteq> bucketIds ti t \<union> {i}"
      using app(1) by (auto simp: bucketIds_def split: option.splits if_splits)
    with Cons.IH [OF app(2)] show ?thesis by blast
  next
    case skip
    from Cons.IH [OF skip] show ?thesis .
  qed
qed

lemma tagsLoop_listed:
  "tagsLoop tbl ids rec ti w = (r, ti', w') \<Longrightarrow> bucketIds ti' t \<subseteq> bucketIds ti t \<union> set ids"
proof (induction ids arbitrary: rec ti w)
  case Nil
  then show ?case by auto
next
  case (Cons i ids)
  from Cons.prems consider
    (stop) "ti' = ti"
    | (panic) tags p where "addTags tags i ti = (Some p, ti')"
    | (go) tags rec1 ti1 w1 where "addTags tags i ti = (None, ti1)"
        "tagsLoop tbl ids rec1 ti1 w1 = (r, ti', w')"
    by (auto split: prod.splits sum.splits option.splits iface.splits)
  then show ?case
  proof cases
    case stop
    then show ?thesis by auto
  next
    case panic
    from addTags_listed [OF this] show ?thesis by auto
  next
    case go
    from addTags_listed [OF go(1)] Cons.IH [OF go(2)] show ?thesis by auto
  qed
qed

lemma initFlds_listed: "listed (initFlds flds Map.empty) f v = {}"
  by (simp add: listed_def initFlds_apply bucketIds_def)

lemma initNonTagsIndexes_listed:
  assumes "initNonTagsIndexes db w tbl = (r, db', w')"
  shows "\<exists>ix. fldIndexes db' tbl = Some ix \<and> listed ix f v \<subseteq> set (fileIdsInDataDir w tbl)"
    and "tagIndexes db' = tagIndexes db"
proof -
  from assms obtain ix where
    lp: "nonTagsLoop tbl (configFor db tbl) (fileIdsInDataDir w tbl) Map.empty
           (initFlds (configFor db tbl) Map.empty) w = (r, ix, w')" and
    db': "db' = db\<lparr>fldIndexes := (fldIndexes db)(tbl \<mapsto> ix)\<rparr>"
    by (auto simp: initNonTagsIndexes_def split: prod.splits)
  from nonTagsLoop_listed [OF lp, of f v] initFlds_listed db'
  show "\<exists>ix. fldIndexes db' tbl = Some ix \<and> listed ix f v \<subseteq> set (fileIdsInDataDir w tbl)"
    by auto
  from db' show "tagIndexes db' = tagIndexes db" by simp
qed

lemma initTagsIndex_listed:
  assumes "initTagsIndex db w tbl = (r, db', w')"
  shows "bucketIds (tagIndexOf db' tbl) t \<subseteq> set (fileIdsInDataDir w tbl)"
proof -
  obtain r0 ti w0 where tl: "tagsLoop tbl (fileIdsInDataDir w tbl) Map.empty Map.empty w = (r0, ti, w0)"
    by (cases "tagsLoop tbl (fileIdsInDataDir w tbl) Map.empty Map.empty w")
  from tagsLoop_listed [OF tl, of t] have sub: "bucketIds ti t \<subseteq> set (fileIdsInDataDir w tbl)"
    by (simp add: bucketIds_def)
  show ?thesis
  proof (cases "r0 = Returns None")
    case True
    with assms(1) tl have "tagIndexes db' tbl = Some ti"
      by (auto simp: initTagsIndex_def Let_def)
    with sub show ?thesis by (simp add: tagIndexOf_def)
  next
    case False
    with assms(1) tl have "db' = clearTags db tbl"
      by (auto simp: initTagsIndex_def Let_def split: outcome.splits option.splits)
    then have "tagIndexOf db' tbl = Map.empty"
      by (auto simp: clearTags_def tagIndexOf_def split: option.splits)
    then show ?thesis by (simp add: bucketIds_def)
  qed
qed

lemma Delete_removed:
  assumes "Delete db w tbl fileId = (Returns None, db', w')"
  shows "\<exists>w1. Remove w tbl (fileName fileId) = (None, w1) \<and> initTblIndexes db w1 tbl = (Returns None, db', w')"
  using assms
  by (auto simp: Delete_def split: sum.splits if_splits prod.splits option.splits)

text \<open>
  The part of claim C1 on deletion holds. After a \<open>Delete\<close> that returns nil, on a table
  with an index configuration (and a tag index only if \<open>tags\<close> is configured, as
  \<open>OpenDB\<close> leaves it), the id is in no listing of the table, in no bucket of its field
  index and in no bucket of its tag index.
\<close>

lemma Delete_completeness:
  assumes del: "Delete db w tbl fileId = (Returns None, db', w')"
    and cfg: "map_of (fieldsToIndex db) tbl = Some flds"
    and wf: "''tags'' \<in> set flds \<or> tagIndexes db tbl = None"
  shows "fileId \<notin> set (fileIdsInDataDir w' tbl) \<and>
         (\<forall>f v l. indexLookup db' tbl f v = Some l \<longrightarrow> fileId \<notin> set l) \<and>
         (\<forall>t. fileId \<notin> bucketIds (tagIndexOf db' tbl) t)"
proof -
  from Delete_removed [OF del] obtain w1 where
    rm: "Remove w tbl (fileName fileId) = (None, w1)" and
    rb: "initTblIndexes db w1 tbl = (Returns None, db', w')"
    by blast
  from Remove_ids [OF rm] have gone: "fileId \<notin> set (fileIdsInDataDir w1 tbl)" by simp
  from initTblIndexes_root [OF rb] have "fileIdsInDataDir w' tbl = fileIdsInDataDir w1 tbl"
    by (rule fileIds_root)
  with gone have a: "fileId \<notin> set (fileIdsInDataDir w' tbl)" by simp
  from rb cfg obtain db1 wa where
    nt: "initNonTagsIndexes db w1 tbl = (Returns None, db1, wa)" and
    tg: "(''tags'' \<in> set flds \<and> (\<exists>x. initTagsIndex db1 wa tbl = (Returns x, db', w'))) \<or>
         (''tags'' \<notin> set flds \<and> db' = db1)"
    by (auto simp: initTblIndexes_def stringInSlice_iff split: prod.splits outcome.splits option.splits if_splits)
  from initNonTagsIndexes_root [OF nt] have idsa: "fileIdsInDataDir wa tbl = fileIdsInDataDir w1 tbl"
    by (rule fileIds_root)
  have fi: "fldIndexes db' = fldIndexes db1"
    using tg by (auto dest: initTagsIndex_fldIndexes)
  have b: "\<forall>f v l. indexLookup db' tbl f v = Some l \<longrightarrow> fileId \<notin> set l"
  proof (intro allI impI)
    fix f v l assume l: "indexLookup db' tbl f v = Some l"
    from initNonTagsIndexes_listed(1) [OF nt, of f v] obtain ix where
      ix: "fldIndexes db1 tbl = Some ix" "listed ix f v \<subseteq> set (fileIdsInDataDir w1 tbl)" by blast
    from l fi ix(1) have "listed ix f v = set l"
      by (auto simp: indexLookup_def listed_def bucketIds_def split: option.splits)
    with ix(2) gone show "fileId \<notin> set l" by auto
  qed
  have c: "\<forall>t. fileId \<notin> bucketIds (tagIndexOf db' tbl) t"
  proof
    fix t
    from tg show "fileId \<notin> bucketIds (tagIndexOf db' tbl) t"
    proof
      assume "''tags'' \<in> set flds \<and> (\<exists>x. initTagsIndex db1 wa tbl = (Returns x, db', w'))"
      then obtain x where "initTagsIndex db1 wa tbl = (Returns x, db', w')" by blast
      from initTagsIndex_listed [OF this, of t] idsa gone show ?thesis by auto
    next
      assume n: "''tags'' \<notin> set flds \<and> db' = db1"
      with wf initNonTagsIndexes_listed(2) [OF nt] have "tagIndexes db' tbl = None" by simp
      then show ?thesis by (simp add: tagIndexOf_def bucketIds_def)
    qed
  qed
  from a b c show ?thesis by blast
qed

subsection \<open>FindFirstIdForField on the record files, and the earlier variant\<close>

text \<open>
  \<open>FindFirstIdForField\<close> of \<open>db.go\<close> in terms of the record files. Take a table that has
  a lock, a field and a value for which the field index has no bucket, let no read fail,
  and let every record file hold a string of its own under the field. Then the scan
  collects the ids of the files whose string is the value, in the order of the
  directory; when there is none the method panics with an index out of range, and
  otherwise it returns the first of them.
\<close>

lemma ReadFile_sound:
  "True \<notin> set (faults w) \<Longrightarrow>
   ReadFile w t n = (lookupFile w t n, w\<lparr>faults := tl (faults w)\<rparr>)"
  by (cases "faults w") (auto simp: ReadFile_def split: list.splits bool.splits)

lemma ownField_root: "root w' = root w \<Longrightarrow> ownField w' t i f = ownField w t i f"
  by (simp add: ownField_def lookupFile_def tblDir_def)

lemma ownField_decoded:
  assumes "ownField w t i f = Some s"
  shows "\<exists>data rec1. lookupFile w t (fileName i) = Inr data \<and> Unmarshal data rec = (None, rec1) \<and>
           rec1 f = Some (JString s)"
proof -
  from assms obtain kvs where d: "lookupFile w t (fileName i) = Inr (Doc (JObject kvs))"
    and m: "map_of (rev kvs) f = Some (JString s)"
    by (auto simp: ownField_def split: sum.splits content.splits iface.splits option.splits)
  then show ?thesis by (simp add: store_apply)
qed

lemma scanLoop_own:
  assumes "True \<notin> set (faults w)" "\<forall>i \<in> set ids. ownField w t i f \<noteq> None"
  shows "\<exists>w'. scanLoop t f v ids rec acc w
            = (Returns (acc @ filter (\<lambda>i. ownField w t i f = Some v) ids, None), w')"
  using assms
proof (induction ids arbitrary: rec acc w)
  case Nil
  then show ?case by simp
next
  case (Cons i ids)
  from Cons.prems(2) obtain s where s: "ownField w t i f = Some s" by auto
  from ownField_decoded [OF s, of rec] obtain data rec1 where
    lk: "lookupFile w t (fileName i) = Inr data" and um: "Unmarshal data rec = (None, rec1)"
    and fv: "rec1 f = Some (JString s)" by blast
  let ?w1 = "w\<lparr>faults := tl (faults w)\<rparr>"
  from ReadFile_sound [OF Cons.prems(1)] lk have rd: "ReadFile w t (fileName i) = (Inr data, ?w1)"
    by simp
  have nf1: "True \<notin> set (faults ?w1)" using Cons.prems(1) by (cases "faults w") auto
  have rt: "root ?w1 = root w" by simp
  have own1: "\<forall>j \<in> set ids. ownField ?w1 t j f \<noteq> None"
    using Cons.prems(2) ownField_root [OF rt] by simp
  from Cons.IH [OF nf1 own1, of rec1 "if s = v then acc @ [i] else acc"] obtain w' where
    ih: "scanLoop t f v ids rec1 (if s = v then acc @ [i] else acc) ?w1
          = (Returns ((if s = v then acc @ [i] else acc) @ filter (\<lambda>j. ownField ?w1 t j f = Some v) ids, None), w')"
    by blast
  have "scanLoop t f v (i # ids) rec acc w
          = scanLoop t f v ids rec1 (if s = v then acc @ [i] else acc) ?w1"
    using rd um fv by simp
  with ih s ownField_root [OF rt] show ?case by (cases "s = v") auto
qed

lemma FindFirstIdForField_records:
  assumes "t \<in> rwLocks db" "indexLookup db t f v = None" "True \<notin> set (faults w)"
    and "\<forall>i \<in> set (fileIdsInDataDir w t). ownField w t i f \<noteq> None"
  shows "fst (FindFirstIdForField db w t f v) =
           (case filter (\<lambda>i. ownField w t i f = Some v) (fileIdsInDataDir w t) of
              [] \<Rightarrow> Panics IndexOutOfRange
            | r # rs \<Rightarrow> Returns (r, None))"
proof -
  from scanLoop_own [OF assms(3,4), of v Map.empty "[]"] obtain w' where
    "scanForField w t f v = (Returns (filter (\<lambda>i. ownField w t i f = Some v) (fileIdsInDataDir w t), None), w')"
    by (auto simp: scanForField_def)
  with assms(1,2) show ?thesis
    by (simp add: FindFirstIdForField_def FindAllIdsForField_def split: list.splits)
qed

text \<open>
  A record file without the field stops both copies of the method at the type assertion
  \<open>rec[searchField].(string)\<close>, whether or not a later record matches.
\<close>

lemma FindFirstIdForField_missing_field:
  "fst (FindFirstIdForField ex_db mixed_world ''posts'' ''author'' ''bob'') = Panics TypeAssertion \<and>
   fst (FindFirstIdForField ex_db mixed_world ''posts'' ''author'' ''carol'') = Panics TypeAssertion \<and>
   fst (FindFirstIdForField_old ex_db mixed_world ''posts'' ''author'' (GoString ''bob'')) = Panics TypeAssertion"
  by code_simp

text \<open>
  Claim C5 at the failing input. The table \<open>posts\<close> holds the one record \<open>1\<close>, whose
  author is \<open>alice\<close>, and the search is for the author \<open>bob\<close>, which no record has. The
  earlier copy of \<open>FindFirstIdForField\<close> leaves its loop and returns the empty id with
  a nil error: no match is a silent return of an empty value. \<open>FindFirstIdForField\<close> of
  \<open>db.go\<close>, on the same table and search, does not return: it fails with the index out
  of range.
\<close>

theorem FindFirstIdForField_old_returns_empty:
  "fileIdsInDataDir author_world1 ''posts'' = [''1''] \<and>
   lookupFile author_world1 ''posts'' ''1.json'' = Inr (Doc (JObject [(''author'', JString ''alice'')])) \<and>
   FindFirstIdForField_old author_db1 author_world1 ''posts'' ''author'' (GoString ''bob'')
     = (Returns ([], None), author_world1) \<and>
   FindFirstIdForField author_db1 author_world1 ''posts'' ''author'' ''bob''
     = (Panics IndexOutOfRange, author_world1)"
  by code_simp

lemma FindFirstIdForField_old_match:
  "FindFirstIdForField_old author_db1 author_world1 ''posts'' ''author'' (GoString ''alice'')
     = (Returns (''1'', None), author_world1)"
  by code_simp

text \<open>The earlier copy of \<open>initTagsIndex\<close> leaves the other tables alone as well (claim C9).\<close>

lemma initTagsIndex_old_frame:
  "t' \<noteq> tblName \<Longrightarrow>
   tagIndexes (fst (snd (initTagsIndex_old db w tblName))) t' = tagIndexes db t' \<and>
   fldIndexes (fst (snd (initTagsIndex_old db w tblName))) = fldIndexes db"
  by (auto simp: initTagsIndex_old_def clearTags_old_def Let_def
      split: option.splits prod.splits outcome.splits)

end
